theory Spec2Isabelle
  imports Complex_Main "HOL-Library.AList" "HOL-Library.Multiset"
begin

section \<open>Python exceptions and container primitives\<close>

text \<open>
  The messages of the source are f-strings; each message of the source is one constructor
  here, carrying the values the f-string interpolates. \<open>ExcText\<close> is the text of an
  exception that the source did not build itself. The messages behind \<open>ParseFailedMsg\<close> and
  \<open>SaveFailedMsg\<close> end with the text of the library error that was caught, which is left
  out here.
\<close>

datatype msg =
    TimeoutMsg
  | ConnectionMsg
  | NotFoundMsg
  | RateLimitedMsg
  | ServerErrorMsg int
  | HttpErrorMsg int
  | NotImageMsg string
  | EmptyBodyMsg
  | ParseFailedMsg
  | SaveFailedMsg string
  | UnknownMsg msg
  | InvalidCoordMsg int int int
  | RetriesExhaustedMsg int
  | ExcText string

text \<open>
  An exception is its class and the message it was raised with. \<open>KeyboardInterrupt\<close> derives
  from \<open>BaseException\<close> only: an \<open>except Exception\<close> clause does not catch it. Every other
  constructor is an \<open>Exception\<close>. \<open>KeyError\<close> holds the \<open>repr\<close> of the missing key and
  \<open>HTTPError\<close> the status code of its response.
\<close>

datatype exn =
    KeyboardInterrupt
  | ValueError string
  | IndexError string
  | KeyError string
  | OverflowError string
  | AttributeError string
  | RequestsTimeout string
  | RequestsConnectionError string
  | HTTPError int string
  | DownloadError msg
  | OtherError string

definition is_Exception :: "exn \<Rightarrow> bool" where
  "is_Exception e = (e \<noteq> KeyboardInterrupt)"

text \<open>\<open>str(e)\<close>: the message of the exception; \<open>str(KeyboardInterrupt())\<close> is empty.\<close>

fun str_exn :: "exn \<Rightarrow> msg" where
  "str_exn (DownloadError m) = m"
| "str_exn KeyboardInterrupt = ExcText []"
| "str_exn (ValueError m) = ExcText m"
| "str_exn (IndexError m) = ExcText m"
| "str_exn (KeyError m) = ExcText m"
| "str_exn (OverflowError m) = ExcText m"
| "str_exn (AttributeError m) = ExcText m"
| "str_exn (RequestsTimeout m) = ExcText m"
| "str_exn (RequestsConnectionError m) = ExcText m"
| "str_exn (HTTPError status m) = ExcText m"
| "str_exn (OtherError m) = ExcText m"

text \<open>An integer as \<open>str\<close> and \<open>repr\<close> print it: its decimal digits, with a sign when negative.\<close>

fun str_nat :: "nat \<Rightarrow> string" where
  "str_nat n = (if n < 10 then [char_of (48 + n)]
                else str_nat (n div 10) @ [char_of (48 + n mod 10)])"

declare str_nat.simps [simp del]

definition str_int :: "int \<Rightarrow> string" where
  "str_int i = (if i < 0 then CHR ''-'' # str_nat (nat (- i)) else str_nat (nat i))"

text \<open>\<open>list.remove(k)\<close>: drops the first occurrence, raises \<open>ValueError\<close> when there is none.\<close>

definition list_remove :: "'a \<Rightarrow> 'a list \<Rightarrow> exn + 'a list" where
  "list_remove k xs = (if k \<in> set xs then Inr (remove1 k xs) else Inl (ValueError ''list.remove(x): x not in list''))"

text \<open>\<open>list.pop(0)\<close>: raises \<open>IndexError\<close> on the empty list.\<close>

definition list_pop0 :: "'a list \<Rightarrow> exn + ('a \<times> 'a list)" where
  "list_pop0 xs = (case xs of [] \<Rightarrow> Inl (IndexError ''pop from empty list'') | x # r \<Rightarrow> Inr (x, r))"

text \<open>
  A Python \<open>dict\<close> is an association list in insertion order with distinct keys:
  assignment replaces in place or appends, \<open>del\<close> raises \<open>KeyError\<close> on a missing key;
  \<open>repr\<close> prints the key for the message.
\<close>

definition dict_has :: "('k \<times> 'v) list \<Rightarrow> 'k \<Rightarrow> bool" where
  "dict_has d k = (map_of d k \<noteq> None)"

definition dict_del ::
  "('k \<Rightarrow> string) \<Rightarrow> 'k \<Rightarrow> ('k \<times> 'v) list \<Rightarrow> exn + ('k \<times> 'v) list" where
  "dict_del repr k d = (if dict_has d k then Inr (AList.delete k d) else Inl (KeyError (repr k)))"

section \<open>TileCache (downloaders/base.py)\<close>

type_synonym key = "int \<times> int \<times> int"

text \<open>\<open>repr\<close> of a key, a tuple of three integers.\<close>

definition repr_key :: "key \<Rightarrow> string" where
  "repr_key k =
     (case k of (x, y, z) \<Rightarrow> ''('' @ str_int x @ '', '' @ str_int y @ '', '' @ str_int z @ '')'')"

record 'img tile_cache =
  max_size :: int
  cache :: "(key \<times> 'img) list"
  access_order :: "key list"

definition TileCache_init :: "int \<Rightarrow> 'img tile_cache" where
  "TileCache_init n = \<lparr>max_size = n, cache = [], access_order = []\<rparr>"

text \<open>
  A call returns its outcome together with the cache as the call left it, so that a caller
  which catches the exception goes on with that cache.
\<close>

definition TileCache_get ::
  "'img tile_cache \<Rightarrow> key \<Rightarrow> (exn + 'img option) \<times> 'img tile_cache" where
  "TileCache_get c k =
     (if dict_has (cache c) k then
        (case list_remove k (access_order c) of
           Inl e \<Rightarrow> (Inl e, c)
         | Inr ord \<Rightarrow> (Inr (map_of (cache c) k), c\<lparr>access_order := ord @ [k]\<rparr>))
      else (Inr None, c))"

definition store :: "'img tile_cache \<Rightarrow> key \<Rightarrow> 'img \<Rightarrow> 'img tile_cache" where
  "store c k img =
     c\<lparr>cache := AList.update k img (cache c), access_order := access_order c @ [k]\<rparr>"

definition TileCache_put ::
  "'img tile_cache \<Rightarrow> key \<Rightarrow> 'img \<Rightarrow> (exn + unit) \<times> 'img tile_cache" where
  "TileCache_put c k img =
     (if dict_has (cache c) k then
        (case list_remove k (access_order c) of
           Inl e \<Rightarrow> (Inl e, c)
         | Inr ord \<Rightarrow> (Inr (), store (c\<lparr>access_order := ord\<rparr>) k img))
      else if int (length (cache c)) \<ge> max_size c then
        (case list_pop0 (access_order c) of
           Inl e \<Rightarrow> (Inl e, c)
         | Inr (oldest_key, ord) \<Rightarrow>
             (case dict_del repr_key oldest_key (cache c) of
                Inl e \<Rightarrow> (Inl e, c\<lparr>access_order := ord\<rparr>)
              | Inr d \<Rightarrow> (Inr (), store (c\<lparr>cache := d, access_order := ord\<rparr>) k img)))
      else (Inr (), store c k img))"

definition TileCache_clear :: "'img tile_cache \<Rightarrow> 'img tile_cache" where
  "TileCache_clear c = c\<lparr>cache := [], access_order := []\<rparr>"

definition TileCache_size :: "'img tile_cache \<Rightarrow> int" where
  "TileCache_size c = int (length (cache c))"

text \<open>A client of the cache: a sequence of calls, stopped by the first exception.\<close>

datatype 'img cache_op = Get key | Put key 'img | Clear

fun run_ops :: "'img cache_op list \<Rightarrow> 'img tile_cache \<Rightarrow> (exn + unit) \<times> 'img tile_cache" where
  "run_ops [] c = (Inr (), c)"
| "run_ops (Get k # ops) c =
     (case TileCache_get c k of (Inl e, c') \<Rightarrow> (Inl e, c') | (Inr _, c') \<Rightarrow> run_ops ops c')"
| "run_ops (Put k img # ops) c =
     (case TileCache_put c k img of (Inl e, c') \<Rightarrow> (Inl e, c') | (Inr _, c') \<Rightarrow> run_ops ops c')"
| "run_ops (Clear # ops) c = run_ops ops (TileCache_clear c)"

definition cache_inv :: "'img tile_cache \<Rightarrow> bool" where
  "cache_inv c \<longleftrightarrow>
     distinct (map fst (cache c)) \<and> distinct (access_order c) \<and>
     set (access_order c) = set (map fst (cache c))"

definition size_ok :: "'img tile_cache \<Rightarrow> bool" where
  "size_ok c \<longleftrightarrow> int (length (cache c)) \<le> max_size c"

text \<open>Concrete caches and call sequences used to exercise the theorems below.\<close>

definition demo_kvs :: "(key \<times> nat) list" where
  "demo_kvs = [((0, 0, 1), 10), ((1, 0, 1), 20), ((0, 1, 1), 30)]"

definition demo_cache :: "nat tile_cache" where
  "demo_cache = \<lparr>max_size = 2, cache = [((0, 0, 1), 10), ((1, 0, 1), 20)],
                  access_order = [(0, 0, 1), (1, 0, 1)]\<rparr>"

definition demo_ops :: "nat cache_op list" where
  "demo_ops = [Put (0, 0, 1) 10, Get (0, 0, 1), Put (1, 0, 1) 20, Put (0, 1, 1) 30,
               Get (5, 5, 3), Put (1, 1, 1) 40, Put (0, 1, 1) 50]"


section \<open>Tiles and the downloader's geometry (downloaders/base.py)\<close>

text \<open>
  \<open>TileInfo\<close>. The fields \<open>x\<close>, \<open>y\<close>, \<open>z\<close> of the source are \<open>tile_x\<close>, \<open>tile_y\<close>,
  \<open>tile_z\<close> here.
\<close>

record tile_info =
  tile_x :: int
  tile_y :: int
  tile_z :: int
  url :: string
  file_path :: string

definition tile_key :: "tile_info \<Rightarrow> key" where
  "tile_key t = (tile_x t, tile_y t, tile_z t)"

text \<open>
  The part of \<open>Config\<close> that the downloader reads. Its floats have the type \<open>'f\<close>: the
  downloader only hands them to the float operations of the environment.
\<close>

record 'f config =
  base_url :: string
  tile_save_dir :: string
  max_retries :: int
  backoff_base :: 'f
  retry_wait_range :: "'f \<times> 'f"
  request_interval_range :: "'f \<times> 'f"

text \<open>\<open>os.path.join\<close> (POSIX) with a second component that does not start with a slash.\<close>

definition path_join :: "string \<Rightarrow> string \<Rightarrow> string" where
  "path_join a b = (if a = [] \<or> last a = CHR ''/'' then a @ b else a @ ''/'' @ b)"

definition generate_tile_url :: "'f config \<Rightarrow> int \<Rightarrow> int \<Rightarrow> int \<Rightarrow> string" where
  "generate_tile_url cfg x y z =
     base_url cfg @ ''&x='' @ str_int x @ ''&y='' @ str_int y @ ''&z='' @ str_int z"

definition generate_tile_path :: "'f config \<Rightarrow> int \<Rightarrow> int \<Rightarrow> int \<Rightarrow> string" where
  "generate_tile_path cfg x y z =
     path_join (tile_save_dir cfg)
       (''tile_'' @ str_int z @ ''_'' @ str_int x @ ''_'' @ str_int y @ ''.png'')"

definition create_tile_info :: "'f config \<Rightarrow> int \<Rightarrow> int \<Rightarrow> int \<Rightarrow> tile_info" where
  "create_tile_info cfg x y z =
     \<lparr>tile_x = x, tile_y = y, tile_z = z,
      url = generate_tile_url cfg x y z, file_path = generate_tile_path cfg x y z\<rparr>"

text \<open>\<open>1 << z\<close>: Python raises \<open>ValueError\<close> on a negative shift count.\<close>

definition shift_left_one :: "int \<Rightarrow> exn + int" where
  "shift_left_one z = (if z < 0 then Inl (ValueError ''negative shift count'') else Inr (2 ^ nat z))"

text \<open>
  \<open>calculate_tiles_for_point\<close>. The centre tile comes from the library call
  \<open>mercantile.tile(lon, lat, zoom)\<close>; the model takes that tile in place of \<open>lon\<close> and \<open>lat\<close>.
  The two nested \<open>for\<close> loops run over the offsets \<open>(dx, dy)\<close> with \<open>dx\<close> outermost;
  \<open>tiles_loop\<close> is their body, run over that list of offsets.
\<close>

fun tiles_loop ::
  "'f config \<Rightarrow> int \<times> int \<Rightarrow> int \<Rightarrow> (int \<times> int) list \<Rightarrow> tile_info list \<Rightarrow> exn + tile_info list" where
  "tiles_loop cfg center zoom [] tiles = Inr tiles"
| "tiles_loop cfg center zoom ((dx, dy) # rest) tiles =
     (let x = fst center + dx; y = snd center + dy in
      case shift_left_one zoom of
        Inl e \<Rightarrow> Inl e
      | Inr max_coord \<Rightarrow>
          tiles_loop cfg center zoom rest
            (if 0 \<le> x \<and> x < max_coord \<and> 0 \<le> y \<and> y < max_coord
             then tiles @ [create_tile_info cfg x y zoom] else tiles))"

definition calculate_tiles_for_point ::
  "'f config \<Rightarrow> int \<times> int \<Rightarrow> int \<Rightarrow> int \<Rightarrow> exn + tile_info list" where
  "calculate_tiles_for_point cfg center_tile zoom grid_size =
     (let half = grid_size div 2 in
      tiles_loop cfg center_tile zoom (List.product [- half..half] [- half..half]) [])"

definition validate_tile_coordinates :: "int \<Rightarrow> int \<Rightarrow> int \<Rightarrow> bool" where
  "validate_tile_coordinates x y z =
     (if z < 0 \<or> z > 20 then False
      else (let max_coord = 2 ^ nat z in 0 \<le> x \<and> x < max_coord \<and> 0 \<le> y \<and> y < max_coord))"

text \<open>The bounds test of the loop body, on an offset from the centre tile.\<close>

definition in_grid :: "int \<times> int \<Rightarrow> int \<Rightarrow> int \<times> int \<Rightarrow> bool" where
  "in_grid center zoom d \<longleftrightarrow>
     0 \<le> fst center + fst d \<and> fst center + fst d < 2 ^ nat zoom \<and>
     0 \<le> snd center + snd d \<and> snd center + snd d < 2 ^ nat zoom"

definition demo_config :: "real config" where
  "demo_config = \<lparr>base_url = ''http://mt0.google.com/vt/lyrs=s&hl=en'', tile_save_dir = ''./tiles'',
                  max_retries = 3, backoff_base = 2, retry_wait_range = (6, 10),
                  request_interval_range = (1 / 10, 3 / 10)\<rparr>"

definition demo_tiles :: "tile_info list" where
  "demo_tiles = map (\<lambda>d. create_tile_info demo_config (2 + fst d) (2 + snd d) 3)
                    (List.product [- 1..1] [- 1..1])"

section \<open>Images and the tile merger (processors/image\_processor.py)\<close>

text \<open>
  A PIL image in mode RGB: its size and the colour of each pixel. Pixels outside the size are
  never read.
\<close>

type_synonym rgb = "nat \<times> nat \<times> nat"

record image =
  width :: int
  height :: int
  pixels :: "int \<times> int \<Rightarrow> rgb"

definition image_size :: "image \<Rightarrow> int \<times> int" where
  "image_size img = (width img, height img)"

text \<open>\<open>Image.new('RGB', size, color)\<close>: PIL raises \<open>ValueError\<close> on a negative side.\<close>

definition Image_new :: "int \<times> int \<Rightarrow> rgb \<Rightarrow> exn + image" where
  "Image_new sz color =
     (if fst sz < 0 \<or> snd sz < 0 then Inl (ValueError ''Width and height must be >= 0'')
      else Inr \<lparr>width = fst sz, height = snd sz, pixels = (\<lambda>_. color)\<rparr>)"

text \<open>
  \<open>canvas.paste(tile, (x, y))\<close>: the pixels of the canvas under the tile's box take the
  tile's colours; the box is clipped to the canvas.
\<close>

definition paste :: "image \<Rightarrow> image \<Rightarrow> int \<times> int \<Rightarrow> image" where
  "paste canvas tile pos =
     canvas\<lparr>pixels := (\<lambda>(u, v).
        if fst pos \<le> u \<and> u < fst pos + width tile \<and> snd pos \<le> v \<and> v < snd pos + height tile \<and>
           0 \<le> u \<and> u < width canvas \<and> 0 \<le> v \<and> v < height canvas
        then pixels tile (u - fst pos, v - snd pos)
        else pixels canvas (u, v))\<rparr>"

text \<open>
  What the merger takes from the imaging library without fixing it: the resampling filter of
  \<open>Image.resize\<close> (which pixels a resized image has) and what \<open>ImageDraw\<close> draws on the grey
  placeholder (the text MISSING, a cross, or nothing when drawing fails). Both leave the size
  to the caller.
\<close>

record pil =
  resample :: "image \<Rightarrow> int \<times> int \<Rightarrow> int \<times> int \<Rightarrow> rgb"
  draw_marker :: "(int \<times> int \<Rightarrow> rgb) \<Rightarrow> int \<times> int \<Rightarrow> rgb"

definition resize :: "pil \<Rightarrow> image \<Rightarrow> int \<times> int \<Rightarrow> image" where
  "resize lib img sz = \<lparr>width = fst sz, height = snd sz, pixels = resample lib img sz\<rparr>"

text \<open>
  \<open>DownloadResult\<close>. The field \<open>download_time\<close> is a difference of wall-clock readings and is
  left out; \<open>tile_info\<close> and \<open>image\<close> are \<open>result_tile\<close> and \<open>result_image\<close>.
\<close>

record download_result =
  result_tile :: tile_info
  success :: bool
  result_image :: "image option"
  error :: "msg option"
  file_size :: int
  from_cache :: bool

definition tile_size :: int where
  "tile_size = 256"

definition result_xy :: "download_result \<Rightarrow> int \<times> int" where
  "result_xy r = (tile_x (result_tile r), tile_y (result_tile r))"

text \<open>The first loop of \<open>merge_tiles\<close>: the dictionary from \<open>(x, y)\<close> to the fetched image.\<close>

definition tile_map_step ::
  "download_result \<Rightarrow> ((int \<times> int) \<times> image) list \<Rightarrow> ((int \<times> int) \<times> image) list" where
  "tile_map_step r m =
     (if success r then
        (case result_image r of Some img \<Rightarrow> AList.update (result_xy r) img m | None \<Rightarrow> m)
      else m)"

definition build_tile_map :: "download_result list \<Rightarrow> ((int \<times> int) \<times> image) list" where
  "build_tile_map download_results = fold tile_map_step download_results []"

text \<open>\<open>_fill_missing_tile\<close>: a grey tile with the marker drawn on it, pasted at \<open>(x, y)\<close>.\<close>

definition gray_tile :: "pil \<Rightarrow> image" where
  "gray_tile lib =
     \<lparr>width = tile_size, height = tile_size, pixels = draw_marker lib (\<lambda>_. (128, 128, 128))\<rparr>"

definition fill_missing_tile :: "pil \<Rightarrow> image \<Rightarrow> int \<Rightarrow> int \<Rightarrow> image" where
  "fill_missing_tile lib img x y = paste img (gray_tile lib) (x, y)"

text \<open>
  The state of the second loop: the canvas, \<open>successful_tiles\<close> and \<open>missing_tiles\<close>.
  \<open>merge_cell\<close> is the loop body at the cell \<open>(grid_y, grid_x)\<close>.
\<close>

record merge_state =
  merged_image :: image
  successful_tiles :: int
  missing_tiles :: "(int \<times> int) list"

definition fit_tile :: "pil \<Rightarrow> image \<Rightarrow> image" where
  "fit_tile lib tile_image =
     (if image_size tile_image \<noteq> (tile_size, tile_size)
      then resize lib tile_image (tile_size, tile_size) else tile_image)"

definition merge_cell ::
  "pil \<Rightarrow> ((int \<times> int) \<times> image) list \<Rightarrow> int \<times> int \<Rightarrow> int \<times> int \<Rightarrow> merge_state \<Rightarrow> merge_state" where
  "merge_cell lib tile_map start cell st =
     (let grid_y = fst cell; grid_x = snd cell;
          tx = fst start + grid_x; ty = snd start + grid_y;
          pixel_x = grid_x * tile_size; pixel_y = grid_y * tile_size
      in case map_of tile_map (tx, ty) of
           Some tile_image \<Rightarrow>
             st\<lparr>merged_image := paste (merged_image st) (fit_tile lib tile_image) (pixel_x, pixel_y),
                successful_tiles := successful_tiles st + 1\<rparr>
         | None \<Rightarrow>
             st\<lparr>missing_tiles := missing_tiles st @ [(tx, ty)],
                merged_image := fill_missing_tile lib (merged_image st) pixel_x pixel_y\<rparr>)"

definition grid_cells :: "int \<Rightarrow> (int \<times> int) list" where
  "grid_cells grid_size = List.product [0..grid_size - 1] [0..grid_size - 1]"

definition merge_loop ::
  "pil \<Rightarrow> download_result list \<Rightarrow> int \<Rightarrow> tile_info \<Rightarrow> exn + merge_state" where
  "merge_loop lib download_results grid_size center_tile =
     (let output_width = grid_size * tile_size; output_height = grid_size * tile_size in
      case Image_new (output_width, output_height) (0, 0, 0) of
        Inl e \<Rightarrow> Inl e
      | Inr canvas \<Rightarrow>
          (let tile_map = build_tile_map download_results;
               half_grid = grid_size div 2;
               start = (tile_x center_tile - half_grid, tile_y center_tile - half_grid)
           in Inr (fold (merge_cell lib tile_map start) (grid_cells grid_size)
                     \<lparr>merged_image = canvas, successful_tiles = 0, missing_tiles = []\<rparr>)))"

definition merge_tiles ::
  "pil \<Rightarrow> download_result list \<Rightarrow> int \<Rightarrow> tile_info \<Rightarrow> exn + image" where
  "merge_tiles lib download_results grid_size center_tile =
     (case merge_loop lib download_results grid_size center_tile of
        Inl e \<Rightarrow> Inl e | Inr st \<Rightarrow> Inr (merged_image st))"

text \<open>
  A result counts for the mosaic when it is successful and carries an image;
  \<open>cell_image\<close> is what the merger puts on the cell of the tile \<open>(tx, ty)\<close>.
\<close>

definition usable :: "download_result \<Rightarrow> bool" where
  "usable r \<longleftrightarrow> success r \<and> result_image r \<noteq> None"

definition cell_image :: "pil \<Rightarrow> ((int \<times> int) \<times> image) list \<Rightarrow> int \<times> int \<Rightarrow> image" where
  "cell_image lib tile_map txy =
     (case map_of tile_map txy of Some tile_image \<Rightarrow> fit_tile lib tile_image
      | None \<Rightarrow> gray_tile lib)"

text \<open>A library instance and download results used to exercise the theorems below.\<close>

definition demo_pil :: pil where
  "demo_pil = \<lparr>resample = (\<lambda>img sz p. pixels img p), draw_marker = (\<lambda>px. px)\<rparr>"

definition demo_image :: image where
  "demo_image = \<lparr>width = 256, height = 256, pixels = (\<lambda>_. (255, 255, 255))\<rparr>"

definition demo_ok :: "int \<Rightarrow> int \<Rightarrow> download_result" where
  "demo_ok x y = \<lparr>result_tile = create_tile_info demo_config x y 3, success = True,
                  result_image = Some demo_image, error = None, file_size = 100,
                  from_cache = False\<rparr>"

definition demo_failed :: "int \<Rightarrow> int \<Rightarrow> download_result" where
  "demo_failed x y = \<lparr>result_tile = create_tile_info demo_config x y 3, success = False,
                  result_image = None, error = Some (RetriesExhaustedMsg 3), file_size = 0,
                  from_cache = False\<rparr>"

definition demo_results :: "download_result list" where
  "demo_results = [demo_ok 2 2, demo_failed 1 1, demo_ok 3 2]"


section \<open>The synchronous downloader (downloaders/base.py, downloaders/sync\_downloader.py)\<close>

text \<open>
  The model follows \<open>SyncDownloader\<close>. \<open>AsyncDownloader.download_tile_async\<close> takes the same
  steps in the same order (cache lookup, validation, retry loop with the same waits, the same
  failure result); it differs in holding a semaphore during each attempt and in sleeping with
  \<open>asyncio.sleep\<close>.
\<close>

text \<open>
  What the downloader does to the world is recorded in a trace: each HTTP request and each
  call of \<open>time.sleep\<close> that returned, with its duration. Durations are floats, of the
  type \<open>'f\<close> of the configuration.
\<close>

datatype 'f event = EvHttpGet string | EvSleep 'f

text \<open>
  The state of a downloader: its \<open>TileCache\<close>, the tile store on disk (no file, a file that
  does not decode, or a file holding an image), the counters of its \<open>PerformanceMonitor\<close>
  that it updates (each \<open>update_stats\<close> call of the source names one of them by a literal
  key), the trace, and how many requests and random draws were made so far.
\<close>

record 'f downloader =
  tile_cache :: "image tile_cache"
  disk :: "string \<Rightarrow> image option option"
  cache_hits :: int
  cache_misses :: int
  successful_downloads :: int
  failed_downloads :: int
  total_downloads :: int
  total_bytes :: int
  trace :: "'f event list"
  net_calls :: nat
  rand_calls :: nat

text \<open>
  The outcome of one \<open>session.get\<close>: an exception, or a response with its status code, its
  \<open>content-type\<close> header, the length of its body and the image the body decodes to, if any.
\<close>

datatype net_outcome =
    NetRaises exn
  | NetResponse int string nat "image option"

text \<open>
  The environment: the outcome of the \<open>n\<close>-th request ever made, whether a file can be
  written, the size of a written file, and what Python does with the floats of the waits:
  \<^item> \<open>uniform n rng\<close> is the value of the \<open>n\<close>-th call of \<open>random.uniform\<close>, made with
    the range \<open>rng\<close>, and \<open>uniform_error n rng\<close> the exception that this call raises in
    place of a value, if any (\<open>OverflowError\<close> when a bound is an integer too large for a
    float);
  \<^item> \<open>float_pow b k\<close> is the value of \<open>b ** k\<close>, and \<open>pow_error b k\<close> the exception that
    \<open>b ** k\<close> raises in place of a value, if any (\<open>OverflowError\<close> when the result is out of
    the range of a float);
  \<^item> \<open>float_add a b\<close> is the value of \<open>a + b\<close>, and \<open>add_error a b\<close> the exception raised
    in its place, if any (\<open>OverflowError\<close> when \<open>a\<close> is an integer too large for a float);
  \<^item> \<open>time_sleep n d\<close> is the exception that \<open>time.sleep(d)\<close> raises when it is called
    after \<open>n\<close> events of the trace, if any: \<open>ValueError\<close> when \<open>d\<close> is negative or not a
    number, \<open>OverflowError\<close> when \<open>d\<close> is too large for the clock of the platform,
    \<open>KeyboardInterrupt\<close> when the user interrupts the wait;
  \<^item> \<open>http_error_text status u\<close> is the message of the \<open>HTTPError\<close> that
    \<open>raise_for_status\<close> builds for a response with that status from the URL \<open>u\<close>.
\<close>

record 'f env =
  net :: "nat \<Rightarrow> string \<Rightarrow> net_outcome"
  uniform :: "nat \<Rightarrow> 'f \<times> 'f \<Rightarrow> 'f"
  uniform_error :: "nat \<Rightarrow> 'f \<times> 'f \<Rightarrow> exn option"
  can_save :: "string \<Rightarrow> bool"
  getsize :: "string \<Rightarrow> int"
  float_pow :: "'f \<Rightarrow> int \<Rightarrow> 'f"
  pow_error :: "'f \<Rightarrow> int \<Rightarrow> exn option"
  float_add :: "'f \<Rightarrow> 'f \<Rightarrow> 'f"
  add_error :: "'f \<Rightarrow> 'f \<Rightarrow> exn option"
  time_sleep :: "nat \<Rightarrow> 'f \<Rightarrow> exn option"
  http_error_text :: "int \<Rightarrow> string \<Rightarrow> string"

text \<open>\<open>time.sleep(d)\<close>: raises, or returns after the wait.\<close>

definition sleep :: "'f env \<Rightarrow> 'f \<Rightarrow> 'f downloader \<Rightarrow> (exn + unit) \<times> 'f downloader" where
  "sleep e d s =
     (case time_sleep e (length (trace s)) d of
        Some ex \<Rightarrow> (Inl ex, s)
      | None \<Rightarrow> (Inr (), s\<lparr>trace := trace s @ [EvSleep d]\<rparr>))"

text \<open>\<open>random.uniform(*rng)\<close>: the next call of the generator.\<close>

definition random_uniform ::
  "'f env \<Rightarrow> 'f \<times> 'f \<Rightarrow> 'f downloader \<Rightarrow> (exn + 'f) \<times> 'f downloader" where
  "random_uniform e rng s =
     (case uniform_error e (rand_calls s) rng of
        Some ex \<Rightarrow> Inl ex
      | None \<Rightarrow> Inr (uniform e (rand_calls s) rng),
      s\<lparr>rand_calls := Suc (rand_calls s)\<rparr>)"

definition add_random_delay ::
  "'f config \<Rightarrow> 'f env \<Rightarrow> 'f downloader \<Rightarrow> (exn + unit) \<times> 'f downloader" where
  "add_random_delay cfg e s =
     (case random_uniform e (request_interval_range cfg) s of
        (Inl ex, s1) \<Rightarrow> (Inl ex, s1)
      | (Inr delay, s1) \<Rightarrow> sleep e delay s1)"

text \<open>
  \<open>load_cached_tile\<close>: the memory cache, then the file. Whatever is raised while the file is
  opened and cached is caught and logged, and the lookup ends as a miss.
\<close>

definition load_cached_tile ::
  "tile_info \<Rightarrow> 'f downloader \<Rightarrow> (exn + image option) \<times> 'f downloader" where
  "load_cached_tile t s =
     (case TileCache_get (tile_cache s) (tile_key t) of
        (Inl e, c) \<Rightarrow> (Inl e, s\<lparr>tile_cache := c\<rparr>)
      | (Inr (Some cached_image), c) \<Rightarrow>
          (Inr (Some cached_image), s\<lparr>tile_cache := c, cache_hits := cache_hits s + 1\<rparr>)
      | (Inr None, c) \<Rightarrow>
          (case disk s (file_path t) of
             Some (Some img) \<Rightarrow>
               (case TileCache_put c (tile_key t) img of
                  (Inr _, c') \<Rightarrow>
                    (Inr (Some img), s\<lparr>tile_cache := c', cache_hits := cache_hits s + 1\<rparr>)
                | (Inl _, c') \<Rightarrow>
                    (Inr None, s\<lparr>tile_cache := c', cache_misses := cache_misses s + 1\<rparr>))
           | _ \<Rightarrow> (Inr None, s\<lparr>tile_cache := c, cache_misses := cache_misses s + 1\<rparr>)))"

text \<open>
  \<open>save_tile\<close>: write the file, cache the image, add the file size to \<open>total_bytes\<close>;
  any exception on the way becomes a \<open>DownloadError\<close>.
\<close>

definition save_tile ::
  "'f env \<Rightarrow> tile_info \<Rightarrow> image \<Rightarrow> 'f downloader \<Rightarrow> (exn + unit) \<times> 'f downloader" where
  "save_tile e t img s =
     (if \<not> can_save e (file_path t)
      then (Inl (DownloadError (SaveFailedMsg (file_path t))), s)
      else (let s1 = s\<lparr>disk := (disk s)(file_path t := Some (Some img))\<rparr> in
            case TileCache_put (tile_cache s1) (tile_key t) img of
              (Inl _, c) \<Rightarrow> (Inl (DownloadError (SaveFailedMsg (file_path t))), s1\<lparr>tile_cache := c\<rparr>)
            | (Inr _, c) \<Rightarrow>
                (Inr (), s1\<lparr>tile_cache := c,
                            total_bytes := total_bytes s1 + getsize e (file_path t)\<rparr>)))"

definition success_result :: "tile_info \<Rightarrow> image \<Rightarrow> int \<Rightarrow> bool \<Rightarrow> download_result" where
  "success_result t img n cached =
     \<lparr>result_tile = t, success = True, result_image = Some img, error = None,
      file_size = n, from_cache = cached\<rparr>"

definition failure_result :: "tile_info \<Rightarrow> msg \<Rightarrow> download_result" where
  "failure_result t m =
     \<lparr>result_tile = t, success = False, result_image = None, error = Some m,
      file_size = 0, from_cache = False\<rparr>"

text \<open>
  The body of the \<open>try\<close> block of \<open>_download_with_retry\<close>, after the request has returned
  a response.
\<close>

definition handle_response ::
  "'f env \<Rightarrow> tile_info \<Rightarrow> int \<Rightarrow> string \<Rightarrow> nat \<Rightarrow> image option \<Rightarrow> 'f downloader \<Rightarrow>
     (exn + download_result) \<times> 'f downloader" where
  "handle_response e t status content_type body_len decoded s =
     (if 400 \<le> status \<and> status < 600 then (Inl (HTTPError status (http_error_text e status (url t))), s)
      else if take 6 content_type \<noteq> ''image/'' then
        (Inl (DownloadError (NotImageMsg content_type)), s)
      else if body_len = 0 then (Inl (DownloadError EmptyBodyMsg), s)
      else (case decoded of
              None \<Rightarrow> (Inl (DownloadError ParseFailedMsg), s)
            | Some img \<Rightarrow>
                (case save_tile e t img s of
                   (Inl ex, s1) \<Rightarrow> (Inl ex, s1)
                 | (Inr _, s1) \<Rightarrow> (Inr (success_result t img (int body_len) False), s1))))"

definition try_download ::
  "'f config \<Rightarrow> 'f env \<Rightarrow> tile_info \<Rightarrow> int \<Rightarrow> 'f downloader \<Rightarrow>
     (exn + download_result) \<times> 'f downloader" where
  "try_download cfg e t attempt s =
     (case (if attempt > 0 then add_random_delay cfg e s else (Inr (), s)) of
        (Inl ex, s1) \<Rightarrow> (Inl ex, s1)
      | (Inr _, s1) \<Rightarrow>
          (let s2 = s1\<lparr>trace := trace s1 @ [EvHttpGet (url t)], net_calls := Suc (net_calls s1)\<rparr> in
           case net e (net_calls s1) (url t) of
             NetRaises ex \<Rightarrow> (Inl ex, s2)
           | NetResponse status content_type body_len decoded \<Rightarrow>
               handle_response e t status content_type body_len decoded s2))"

text \<open>The \<open>except\<close> clauses of \<open>_download_with_retry\<close>, in their order.\<close>

definition reraise :: "exn \<Rightarrow> exn" where
  "reraise ex =
     (case ex of
        RequestsTimeout _ \<Rightarrow> DownloadError TimeoutMsg
      | RequestsConnectionError _ \<Rightarrow> DownloadError ConnectionMsg
      | HTTPError status _ \<Rightarrow>
          (if status = 404 then DownloadError NotFoundMsg
           else if status = 429 then DownloadError RateLimitedMsg
           else if status \<ge> 500 then DownloadError (ServerErrorMsg status)
           else DownloadError (HttpErrorMsg status))
      | KeyboardInterrupt \<Rightarrow> KeyboardInterrupt
      | _ \<Rightarrow> DownloadError (UnknownMsg (str_exn ex)))"

definition download_with_retry ::
  "'f config \<Rightarrow> 'f env \<Rightarrow> tile_info \<Rightarrow> int \<Rightarrow> 'f downloader \<Rightarrow>
     (exn + download_result) \<times> 'f downloader" where
  "download_with_retry cfg e t attempt s =
     (case try_download cfg e t attempt s of
        (Inl ex, s1) \<Rightarrow> (Inl (reraise ex), s1)
      | (Inr result, s1) \<Rightarrow> (Inr result, s1))"

text \<open>
  The retry loop of \<open>download_tile\<close> over the attempts that are left. An exception raised
  inside the \<open>except\<close> handler (by \<open>**\<close>, by \<open>random.uniform\<close>, by \<open>+\<close> or by
  \<open>time.sleep\<close>) leaves the function, as does one that is not an \<open>Exception\<close>.
\<close>

fun attempts ::
  "'f config \<Rightarrow> 'f env \<Rightarrow> tile_info \<Rightarrow> int list \<Rightarrow> 'f downloader \<Rightarrow>
     (exn + download_result) \<times> 'f downloader" where
  "attempts cfg e t [] s =
     (Inr (failure_result t (RetriesExhaustedMsg (max_retries cfg))),
      s\<lparr>failed_downloads := failed_downloads s + 1\<rparr>)"
| "attempts cfg e t (attempt # rest) s =
     (case download_with_retry cfg e t attempt s of
        (Inr result, s1) \<Rightarrow>
          (if success result
           then (Inr result, s1\<lparr>successful_downloads := successful_downloads s1 + 1\<rparr>)
           else attempts cfg e t rest s1)
      | (Inl ex, s1) \<Rightarrow>
          (if is_Exception ex then
             (if attempt < max_retries cfg then
                (case pow_error e (backoff_base cfg) attempt of
                   Some ex' \<Rightarrow> (Inl ex', s1)
                 | None \<Rightarrow>
                     (let backoff_time = float_pow e (backoff_base cfg) attempt in
                      case random_uniform e (retry_wait_range cfg) s1 of
                        (Inl ex', s2) \<Rightarrow> (Inl ex', s2)
                      | (Inr retry_wait, s2) \<Rightarrow>
                          (case add_error e backoff_time retry_wait of
                             Some ex' \<Rightarrow> (Inl ex', s2)
                           | None \<Rightarrow>
                               (case sleep e (float_add e backoff_time retry_wait) s2 of
                                  (Inl ex', s3) \<Rightarrow> (Inl ex', s3)
                                | (Inr _, s3) \<Rightarrow> attempts cfg e t rest s3))))
              else attempts cfg e t rest s1)
           else (Inl ex, s1)))"

definition download_tile ::
  "'f config \<Rightarrow> 'f env \<Rightarrow> tile_info \<Rightarrow> 'f downloader \<Rightarrow>
     (exn + download_result) \<times> 'f downloader" where
  "download_tile cfg e t s =
     (case load_cached_tile t s of
        (Inl ex, s1) \<Rightarrow> (Inl ex, s1)
      | (Inr (Some cached_image), s1) \<Rightarrow> (Inr (success_result t cached_image 0 True), s1)
      | (Inr None, s1) \<Rightarrow>
          (if \<not> validate_tile_coordinates (tile_x t) (tile_y t) (tile_z t)
           then (Inr (failure_result t (InvalidCoordMsg (tile_x t) (tile_y t) (tile_z t))), s1)
           else attempts cfg e t [0..max_retries cfg] s1))"

text \<open>
  The loop of \<open>download_tiles\<close> over \<open>enumerate(tiles, 1)\<close>: \<open>i\<close> is the index of the tile
  at the head. \<open>KeyboardInterrupt\<close> breaks the loop; any other exception of the body, also one
  raised after the tile's result was appended, appends a failure result.
\<close>

fun download_loop ::
  "'f config \<Rightarrow> 'f env \<Rightarrow> int \<Rightarrow> int \<Rightarrow> tile_info list \<Rightarrow> download_result list \<Rightarrow>
     'f downloader \<Rightarrow> download_result list \<times> 'f downloader" where
  "download_loop cfg e total_tiles i [] results s = (results, s)"
| "download_loop cfg e total_tiles i (t # rest) results s =
     (case download_tile cfg e t s of
        (Inl ex, s1) \<Rightarrow>
          (if ex = KeyboardInterrupt then (results, s1)
           else download_loop cfg e total_tiles (i + 1) rest
                  (results @ [failure_result t (str_exn ex)]) s1)
      | (Inr result, s1) \<Rightarrow>
          (if i < total_tiles then
             (case add_random_delay cfg e s1 of
                (Inl ex, s2) \<Rightarrow>
                  (if ex = KeyboardInterrupt then (results @ [result], s2)
                   else download_loop cfg e total_tiles (i + 1) rest
                          (results @ [result, failure_result t (str_exn ex)]) s2)
              | (Inr _, s2) \<Rightarrow>
                  download_loop cfg e total_tiles (i + 1) rest (results @ [result]) s2)
           else download_loop cfg e total_tiles (i + 1) rest (results @ [result]) s1))"

definition download_tiles ::
  "'f config \<Rightarrow> 'f env \<Rightarrow> tile_info list \<Rightarrow> 'f downloader \<Rightarrow>
     download_result list \<times> 'f downloader" where
  "download_tiles cfg e tiles s =
     (let total_tiles = int (length tiles) in
      download_loop cfg e total_tiles 1 tiles []
        (s\<lparr>total_downloads := total_downloads s + total_tiles\<rparr>))"

text \<open>\<open>BaseDownloader.__init__\<close>: a cache of 1000 entries, zeroed counters; the files on disk are given.\<close>

definition BaseDownloader_init :: "(string \<Rightarrow> image option option) \<Rightarrow> 'f downloader" where
  "BaseDownloader_init files =
     \<lparr>tile_cache = TileCache_init 1000, disk = files, cache_hits = 0, cache_misses = 0,
      successful_downloads = 0, failed_downloads = 0, total_downloads = 0, total_bytes = 0,
      trace = [], net_calls = 0, rand_calls = 0\<rparr>"



text \<open>
  The invariant of a downloader's cache: \<open>BaseDownloader.__init__\<close> creates the cache empty
  with room for 1000 tiles, and \<open>get\<close> and \<open>put\<close> keep it within its capacity.
\<close>

definition downloader_inv :: "'f downloader \<Rightarrow> bool" where
  "downloader_inv s \<longleftrightarrow>
     cache_inv (tile_cache s) \<and> size_ok (tile_cache s) \<and> 1 \<le> max_size (tile_cache s)"

text \<open>
  Conditions on the environment and the configuration. No request is interrupted by the
  user. Every wait that the configuration can ask for is one that Python computes and
  \<open>time.sleep\<close> accepts and completes: the inter-request delay, whatever the draw, and for
  each attempt \<open>k\<close> that can be followed by a retry, \<open>backoff_base ** k\<close> plus the draw from
  \<open>retry_wait_range\<close>.
\<close>

definition no_interrupt :: "'f env \<Rightarrow> bool" where
  "no_interrupt e \<longleftrightarrow> (\<forall>n u. net e n u \<noteq> NetRaises KeyboardInterrupt)"

definition waits_accepted :: "'f config \<Rightarrow> 'f env \<Rightarrow> bool" where
  "waits_accepted cfg e \<longleftrightarrow>
     (\<forall>n. uniform_error e n (request_interval_range cfg) = None) \<and>
     (\<forall>m n. time_sleep e m (uniform e n (request_interval_range cfg)) = None) \<and>
     (\<forall>k. 0 \<le> k \<and> k < max_retries cfg \<longrightarrow>
        pow_error e (backoff_base cfg) k = None \<and>
        (\<forall>n. uniform_error e n (retry_wait_range cfg) = None) \<and>
        (\<forall>n. add_error e (float_pow e (backoff_base cfg) k)
                (uniform e n (retry_wait_range cfg)) = None) \<and>
        (\<forall>m n. time_sleep e m
                  (float_add e (float_pow e (backoff_base cfg) k)
                     (uniform e n (retry_wait_range cfg))) = None))"

text \<open>What a call leaves alone: the trace and the two counters of the environment.\<close>

definition same_world :: "'f downloader \<Rightarrow> 'f downloader \<Rightarrow> bool" where
  "same_world s s' \<longleftrightarrow> trace s' = trace s \<and> net_calls s' = net_calls s \<and> rand_calls s' = rand_calls s"

text \<open>
  The \<open>n\<close>-th request, made for the tile \<open>t\<close>, does not end with a saved image: the request
  raises, or the response has an error status, is not an image, is empty, does not decode, or
  the file cannot be written.
\<close>

definition attempt_fails :: "'f env \<Rightarrow> tile_info \<Rightarrow> nat \<Rightarrow> bool" where
  "attempt_fails e t n =
     (case net e n (url t) of
        NetRaises ex \<Rightarrow> True
      | NetResponse status content_type body_len decoded \<Rightarrow>
          (400 \<le> status \<and> status < 600) \<or> take 6 content_type \<noteq> ''image/'' \<or> body_len = 0 \<or>
          decoded = None \<or> \<not> can_save e (file_path t))"

text \<open>
  What one attempt does to the world: a retry first sleeps a random inter-request delay, then
  the request is made.
\<close>

definition attempt_events :: "'f config \<Rightarrow> 'f env \<Rightarrow> tile_info \<Rightarrow> int \<Rightarrow> nat \<Rightarrow> 'f event list" where
  "attempt_events cfg e t attempt r =
     (if attempt > 0 then [EvSleep (uniform e r (request_interval_range cfg))] else []) @
     [EvHttpGet (url t)]"

text \<open>
  The wait that the retry policy prescribes after the failed attempt \<open>k\<close>, with the \<open>r\<close>-th
  random draw: \<open>backoff_base ** k\<close> plus the draw from \<open>retry_wait_range\<close>.
\<close>

definition backoff_wait :: "'f config \<Rightarrow> 'f env \<Rightarrow> int \<Rightarrow> nat \<Rightarrow> 'f" where
  "backoff_wait cfg e k r =
     float_add e (float_pow e (backoff_base cfg) k) (uniform e r (retry_wait_range cfg))"

text \<open>
  The trace that the retry policy prescribes for a run of failing attempts \<open>ks\<close>, followed by
  a last attempt that succeeds, if there is one, when \<open>r\<close> random draws were made before: each
  failing attempt is followed, when it is not the last one allowed (\<open>k < max_retries\<close>), by a
  sleep of \<open>backoff_wait\<close>; each attempt after the first starts with the inter-request delay.
\<close>

fun retry_events ::
  "'f config \<Rightarrow> 'f env \<Rightarrow> tile_info \<Rightarrow> nat \<Rightarrow> int list \<Rightarrow> int option \<Rightarrow> 'f event list" where
  "retry_events cfg e t r [] None = []"
| "retry_events cfg e t r [] (Some k) = attempt_events cfg e t k r"
| "retry_events cfg e t r (k # ks) final =
     attempt_events cfg e t k r @
     (if k < max_retries cfg
      then [EvSleep (backoff_wait cfg e k (r + (if k > 0 then 1 else 0)))]
      else []) @
     retry_events cfg e t
       (r + (if k > 0 then 1 else 0) + (if k < max_retries cfg then 1 else 0)) ks final"

text \<open>
  Environments, configurations and tiles used to exercise the theorems below. The floats of
  these environments are real numbers, without rounding, with the limits of CPython on a
  64-bit platform: a power overflows from \<open>2 ^ 1024\<close> on, and \<open>time.sleep\<close> refuses a
  negative duration and one of \<open>2 ^ 63\<close> nanoseconds or more. Every draw of
  \<open>random.uniform\<close> returns the lower end of its range.
\<close>

definition cpython_pow_error :: "real \<Rightarrow> int \<Rightarrow> exn option" where
  "cpython_pow_error b k =
     (if 2 ^ 1024 \<le> \<bar>b ^ nat k\<bar> then Some (OverflowError ''(34, 'Numerical result out of range')'')
      else None)"

definition cpython_sleep :: "nat \<Rightarrow> real \<Rightarrow> exn option" where
  "cpython_sleep n d =
     (if d < 0 then Some (ValueError ''sleep length must be non-negative'')
      else if 2 ^ 63 \<le> d * 10 ^ 9
      then Some (OverflowError ''timestamp out of range for platform time_t'')
      else None)"

definition demo_env :: "(nat \<Rightarrow> string \<Rightarrow> net_outcome) \<Rightarrow> real env" where
  "demo_env requests =
     \<lparr>net = requests, uniform = (\<lambda>n rng. fst rng), uniform_error = (\<lambda>n rng. None),
      can_save = (\<lambda>p. True), getsize = (\<lambda>p. 0),
      float_pow = (\<lambda>b k. b ^ nat k), pow_error = cpython_pow_error,
      float_add = (\<lambda>a b. a + b), add_error = (\<lambda>a b. None),
      time_sleep = cpython_sleep, http_error_text = (\<lambda>status u. ''HTTP error'')\<rparr>"

definition timeout_env :: "real env" where
  "timeout_env = demo_env (\<lambda>n u. NetRaises (RequestsTimeout ''Read timed out.''))"

definition interrupt_env :: "real env" where
  "interrupt_env = demo_env (\<lambda>n u. NetRaises KeyboardInterrupt)"

definition flaky_env :: "real env" where
  "flaky_env =
     demo_env (\<lambda>n u. if n = 0 then NetRaises (RequestsTimeout ''Read timed out.'')
                      else NetResponse 200 ''image/png'' 100 (Some demo_image))"

definition retry_config :: "real config" where
  "retry_config = demo_config\<lparr>max_retries := 1\<rparr>"

definition negative_wait_config :: "real config" where
  "negative_wait_config = demo_config\<lparr>retry_wait_range := (- 10, - 6)\<rparr>"

definition negative_interval_config :: "real config" where
  "negative_interval_config = demo_config\<lparr>request_interval_range := (- 1, - 1)\<rparr>"

definition huge_backoff_config :: "real config" where
  "huge_backoff_config = demo_config\<lparr>backoff_base := 10 ^ 10\<rparr>"

definition demo_tile :: tile_info where
  "demo_tile = create_tile_info demo_config 1 1 1"

definition bad_tile :: tile_info where
  "bad_tile = create_tile_info demo_config 5 0 1"

definition no_files :: "string \<Rightarrow> image option option" where
  "no_files = (\<lambda>p. None)"

definition bad_files :: "string \<Rightarrow> image option option" where
  "bad_files = (\<lambda>p. if p = file_path bad_tile then Some (Some demo_image) else None)"

definition fresh_downloader :: "real downloader" where
  "fresh_downloader = BaseDownloader_init no_files"

section \<open>Geodesy and the image processor (processors/image\_processor.py)\<close>

text \<open>
  The coordinate functions compute on Python floats. The model does not fix what a float is:
  it takes the float type \<open>'f\<close> and the operations the source applies to floats as a
  parameter, each operation of the source being one application of an operation below. What is
  proved of a formula then holds operation for operation, for IEEE doubles as for any other
  interpretation. \<open>of_int_f\<close> is the conversion of an \<open>int\<close> operand (and of the literals
  \<open>180.0\<close>, \<open>360.0\<close>, \<open>1.0\<close>, \<open>2.0\<close>, \<open>256\<close>), \<open>pow2 z\<close> is \<open>2.0 ** z\<close>, \<open>trunc_f\<close> is
  \<open>int(...)\<close>.
\<close>

record 'f float_ops =
  fadd :: "'f \<Rightarrow> 'f \<Rightarrow> 'f"
  fsub :: "'f \<Rightarrow> 'f \<Rightarrow> 'f"
  fmul :: "'f \<Rightarrow> 'f \<Rightarrow> 'f"
  fdiv :: "'f \<Rightarrow> 'f \<Rightarrow> 'f"
  of_int_f :: "int \<Rightarrow> 'f"
  pow2 :: "int \<Rightarrow> 'f"
  trunc_f :: "'f \<Rightarrow> int"
  pi_f :: "'f"
  radians :: "'f \<Rightarrow> 'f"
  degrees :: "'f \<Rightarrow> 'f"
  tan_f :: "'f \<Rightarrow> 'f"
  asinh_f :: "'f \<Rightarrow> 'f"
  atan_f :: "'f \<Rightarrow> 'f"
  sinh_f :: "'f \<Rightarrow> 'f"

text \<open>\<open>GeoPoint\<close> (its \<open>properties\<close> dictionary is not read by the functions below).\<close>

record 'f geo_point =
  longitude :: "'f"
  latitude :: "'f"
  point_index :: "int option"

text \<open>\<open>PixelCoordinate\<close>; the fields \<open>x\<close> and \<open>y\<close> are \<open>pixel_x\<close> and \<open>pixel_y\<close>.\<close>

record 'f pixel_coordinate =
  pixel_x :: "'f"
  pixel_y :: "'f"

text \<open>
  \<open>_geo_to_tile_float\<close>: \<open>(lon + 180.0) / 360.0 * n\<close> and
  \<open>(1.0 - math.asinh(math.tan(lat_rad)) / math.pi) / 2.0 * n\<close>, in Python's order of evaluation.
\<close>

definition geo_to_tile_float :: "'f float_ops \<Rightarrow> 'f \<Rightarrow> 'f \<Rightarrow> int \<Rightarrow> 'f \<times> 'f" where
  "geo_to_tile_float ops lon lat zoom =
     (let lat_rad = radians ops lat;
          n = pow2 ops zoom;
          x = fmul ops (fdiv ops (fadd ops lon (of_int_f ops 180)) (of_int_f ops 360)) n;
          y = fmul ops
                (fdiv ops
                   (fsub ops (of_int_f ops 1)
                      (fdiv ops (asinh_f ops (tan_f ops lat_rad)) (pi_f ops)))
                   (of_int_f ops 2))
                n
      in (x, y))"

text \<open>\<open>_geo_to_tile\<close>: the same two expressions, each passed to \<open>int\<close>.\<close>

definition geo_to_tile :: "'f float_ops \<Rightarrow> 'f \<Rightarrow> 'f \<Rightarrow> int \<Rightarrow> int \<times> int" where
  "geo_to_tile ops lon lat zoom =
     (let lat_rad = radians ops lat;
          n = pow2 ops zoom;
          x = trunc_f ops
                (fmul ops (fdiv ops (fadd ops lon (of_int_f ops 180)) (of_int_f ops 360)) n);
          y = trunc_f ops
                (fmul ops
                   (fdiv ops
                      (fsub ops (of_int_f ops 1)
                         (fdiv ops (asinh_f ops (tan_f ops lat_rad)) (pi_f ops)))
                      (of_int_f ops 2))
                   n)
      in (x, y))"

text \<open>
  \<open>_tile_to_geo\<close>: \<open>x / n * 360.0 - 180.0\<close> and
  \<open>degrees(atan(sinh(pi * (1 - 2 * y / n))))\<close>; \<open>2 * y\<close> is an integer product.
\<close>

definition tile_to_geo :: "'f float_ops \<Rightarrow> int \<Rightarrow> int \<Rightarrow> int \<Rightarrow> 'f \<times> 'f" where
  "tile_to_geo ops x y zoom =
     (let n = pow2 ops zoom;
          lon = fsub ops (fmul ops (fdiv ops (of_int_f ops x) n) (of_int_f ops 360))
                  (of_int_f ops 180);
          lat_rad = atan_f ops
                      (sinh_f ops
                         (fmul ops (pi_f ops)
                            (fsub ops (of_int_f ops 1) (fdiv ops (of_int_f ops (2 * y)) n))));
          lat = degrees ops lat_rad
      in (lon, lat))"

definition geo_to_pixel ::
  "'f float_ops \<Rightarrow> 'f geo_point \<Rightarrow> tile_info \<Rightarrow> int \<Rightarrow> 'f pixel_coordinate" where
  "geo_to_pixel ops point center_tile grid_size =
     (case geo_to_tile_float ops (longitude point) (latitude point) (tile_z center_tile) of
        (point_tile_x, point_tile_y) \<Rightarrow>
          (let half_grid = grid_size div 2;
               start_tile_x = tile_x center_tile - half_grid;
               start_tile_y = tile_y center_tile - half_grid;
               relative_tile_x = fsub ops point_tile_x (of_int_f ops start_tile_x);
               relative_tile_y = fsub ops point_tile_y (of_int_f ops start_tile_y);
               px = fmul ops relative_tile_x (of_int_f ops 256);
               py = fmul ops relative_tile_y (of_int_f ops 256)
           in \<lparr>pixel_x = px, pixel_y = py\<rparr>))"

text \<open>One entry of \<open>pixel_coordinates\<close>, and \<open>ImageMetadata\<close>.\<close>

record 'f pixel_record =
  rec_index :: "int option"
  rec_longitude :: "'f"
  rec_latitude :: "'f"
  rec_pixel_x :: "'f"
  rec_pixel_y :: "'f"

record 'f bounds =
  min_lon :: "'f"
  min_lat :: "'f"
  max_lon :: "'f"
  max_lat :: "'f"

record 'f image_metadata =
  md_width :: int
  md_height :: int
  zoom_level :: int
  md_tile_size :: int
  md_grid_size :: int
  center_point :: "'f geo_point"
  md_bounds :: "'f bounds"
  pixel_coordinates :: "'f pixel_record list"

definition create_image_metadata ::
  "'f float_ops \<Rightarrow> image \<Rightarrow> 'f geo_point \<Rightarrow> tile_info \<Rightarrow> int \<Rightarrow> int \<Rightarrow> 'f pixel_coordinate \<Rightarrow>
     'f image_metadata" where
  "create_image_metadata ops img point center_tile grid_size zoom pixel_coord =
     (let half_grid = grid_size div 2;
          top_left_tile_x = tile_x center_tile - half_grid;
          top_left_tile_y = tile_y center_tile - half_grid;
          bottom_right_tile_x = tile_x center_tile + half_grid;
          bottom_right_tile_y = tile_y center_tile + half_grid
      in case tile_to_geo ops top_left_tile_x top_left_tile_y zoom of
           (lon_min, lat_max) \<Rightarrow>
             (case tile_to_geo ops bottom_right_tile_x bottom_right_tile_y zoom of
                (lon_max, lat_min) \<Rightarrow>
                  \<lparr>md_width = width img, md_height = height img, zoom_level = zoom,
                   md_tile_size = 256, md_grid_size = grid_size, center_point = point,
                   md_bounds = \<lparr>min_lon = lon_min, min_lat = lat_min,
                                max_lon = lon_max, max_lat = lat_max\<rparr>,
                   pixel_coordinates =
                     [\<lparr>rec_index = point_index point, rec_longitude = longitude point,
                       rec_latitude = latitude point, rec_pixel_x = pixel_x pixel_coord,
                       rec_pixel_y = pixel_y pixel_coord\<rparr>]\<rparr>))"

definition process_point_image ::
  "'f float_ops \<Rightarrow> pil \<Rightarrow> 'f geo_point \<Rightarrow> download_result list \<Rightarrow> int \<Rightarrow> int \<Rightarrow>
     exn + image \<times> 'f image_metadata" where
  "process_point_image ops lib point download_results zoom grid_size =
     (case geo_to_tile ops (longitude point) (latitude point) zoom of
        (center_tile_x, center_tile_y) \<Rightarrow>
          (let center_tile = \<lparr>tile_x = center_tile_x, tile_y = center_tile_y, tile_z = zoom,
                               url = '''', file_path = ''''\<rparr>
           in case merge_tiles lib download_results grid_size center_tile of
                Inl ex \<Rightarrow> Inl ex
              | Inr merged \<Rightarrow>
                  (let pixel_coord = geo_to_pixel ops point center_tile grid_size
                   in Inr (merged,
                           create_image_metadata ops merged point center_tile grid_size zoom
                             pixel_coord))))"

text \<open>The operations on real numbers, to run the definitions on concrete points.\<close>

definition real_ops :: "real float_ops" where
  "real_ops = \<lparr>fadd = (+), fsub = (-), fmul = (*), fdiv = (/), of_int_f = of_int,
                pow2 = (\<lambda>z. 2 powr of_int z), trunc_f = (\<lambda>x. if x < 0 then \<lceil>x\<rceil> else \<lfloor>x\<rfloor>),
                pi_f = pi, radians = (\<lambda>d. d * (pi / 180)), degrees = (\<lambda>r. r * (180 / pi)),
                tan_f = tan, asinh_f = arsinh, atan_f = arctan, sinh_f = sinh\<rparr>"

definition null_island :: "real geo_point" where
  "null_island = \<lparr>longitude = 0, latitude = 0, point_index = Some 0\<rparr>"

section \<open>The pipeline (processors/data\_processor.py)\<close>

text \<open>
  \<open>DataProcessor\<close> drives its collaborators through method calls on objects it holds; each
  call can return or raise. The model takes the collaborators as functions of the point (or of
  its index, where the outcome depends on what was downloaded before):
  \<^item> \<open>downloader_class\<close> is the name of the class of \<open>self.downloader\<close>, and \<open>tile_methods\<close>
    holds, by name, the methods of that object that take \<open>(lon, lat, zoom, grid_size)\<close> and
    return tiles; it is \<open>None\<close> at a name that the object does not define;
  \<^item> \<open>fetch_tiles\<close>: \<open>self.downloader.download_tiles\<close>;
  \<^item> \<open>render\<close>: \<open>self.image_processor.process_point_image\<close>;
  \<^item> \<open>write_image\<close>: \<open>image.save\<close> in \<open>_save_image\<close>;
  \<open>write_metadata\<close>: \<open>self.metadata_manager.save_image_metadata\<close>.
\<close>

record ('p, 'm) collaborators =
  downloader_class :: string
  tile_methods :: "string \<Rightarrow> ('p \<Rightarrow> exn + tile_info list) option"
  fetch_tiles :: "nat \<Rightarrow> tile_info list \<Rightarrow> exn + download_result list"
  render :: "'p \<Rightarrow> download_result list \<Rightarrow> exn + image \<times> 'm"
  write_image :: "nat \<Rightarrow> image \<Rightarrow> exn + string"
  write_metadata :: "nat \<Rightarrow> 'm \<Rightarrow> exn + string"

text \<open>The message of the \<open>AttributeError\<close> that Python raises for a name an object lacks.\<close>

definition no_attribute :: "string \<Rightarrow> string \<Rightarrow> string" where
  "no_attribute cls name =
     [CHR 0x27] @ cls @ [CHR 0x27] @ '' object has no attribute '' @ [CHR 0x27] @ name @ [CHR 0x27]"

text \<open>
  \<open>DataProcessor._calculate_tiles_for_point\<close>: the call
  \<open>self.downloader.calculate_tiles_around_point(...)\<close>. Python looks the name up on the
  downloader before it evaluates the arguments, and raises \<open>AttributeError\<close> when the object
  has no attribute of that name.
\<close>

definition DataProcessor_calculate_tiles_for_point ::
  "('p, 'm) collaborators \<Rightarrow> 'p \<Rightarrow> exn + tile_info list" where
  "DataProcessor_calculate_tiles_for_point c point =
     (case tile_methods c ''calculate_tiles_around_point'' of
        None \<Rightarrow>
          Inl (AttributeError (no_attribute (downloader_class c) ''calculate_tiles_around_point''))
      | Some method \<Rightarrow> method point)"

text \<open>
  The downloaders of the repository. \<open>BaseDownloader\<close> defines \<open>generate_tile_url\<close>,
  \<open>generate_tile_path\<close>, \<open>create_tile_info\<close>, \<open>calculate_tiles_for_point\<close>,
  \<open>load_cached_tile\<close>, \<open>save_tile\<close>, \<open>add_random_delay\<close>, \<open>validate_tile_coordinates\<close>,
  \<open>download_tile\<close>, \<open>download_tiles\<close>, \<open>get_statistics\<close> and \<open>reset_statistics\<close>;
  \<open>SyncDownloader\<close> and \<open>AsyncDownloader\<close>, the two classes that \<open>DownloaderFactory\<close>
  creates, add their sessions and their own download methods. No class defines
  \<open>__getattr__\<close>. Of these names, \<open>calculate_tiles_for_point\<close> is the one method that takes
  \<open>(lon, lat, zoom, grid_size)\<close>.
\<close>

definition repository_tile_methods ::
  "('p \<Rightarrow> exn + tile_info list) \<Rightarrow> string \<Rightarrow> ('p \<Rightarrow> exn + tile_info list) option" where
  "repository_tile_methods for_point name =
     (if name = ''calculate_tiles_for_point'' then Some for_point else None)"

text \<open>
  The counters of \<open>self.stats\<close> that the two functions update, and what has been written to
  the output directory: the indices of the points whose image, and whose metadata, was saved.
\<close>

record processor_state =
  stats_successful_points :: int
  stats_failed_points :: int
  stats_total_tiles :: int
  stats_successful_tiles :: int
  stats_failed_tiles :: int
  images_written :: "nat list"
  metadata_written :: "nat list"

text \<open>The body of the \<open>try\<close> block of \<open>_process_single_point\<close>.\<close>

definition try_single_point ::
  "('p, 'm) collaborators \<Rightarrow> 'p \<Rightarrow> nat \<Rightarrow> processor_state \<Rightarrow> (exn + 'm option) \<times> processor_state" where
  "try_single_point c point i st =
     (case DataProcessor_calculate_tiles_for_point c point of
        Inl ex \<Rightarrow> (Inl ex, st)
      | Inr tiles \<Rightarrow>
          (let st1 = st\<lparr>stats_total_tiles := stats_total_tiles st + int (length tiles)\<rparr> in
           case fetch_tiles c i tiles of
             Inl ex \<Rightarrow> (Inl ex, st1)
           | Inr download_results \<Rightarrow>
               (let successful_downloads = int (length (filter success download_results));
                    failed_downloads = int (length download_results) - successful_downloads;
                    st2 = st1\<lparr>stats_successful_tiles :=
                                 stats_successful_tiles st1 + successful_downloads,
                               stats_failed_tiles := stats_failed_tiles st1 + failed_downloads\<rparr>
                in if successful_downloads = 0 then (Inr None, st2)
                   else (case render c point download_results of
                           Inl ex \<Rightarrow> (Inl ex, st2)
                         | Inr (img, metadata) \<Rightarrow>
                             (case write_image c i img of
                                Inl ex \<Rightarrow> (Inl ex, st2)
                              | Inr image_path \<Rightarrow>
                                  (let st3 = st2\<lparr>images_written := images_written st2 @ [i]\<rparr> in
                                   case write_metadata c i metadata of
                                     Inl ex \<Rightarrow> (Inl ex, st3)
                                   | Inr metadata_path \<Rightarrow>
                                       (Inr (Some metadata),
                                        st3\<lparr>metadata_written :=
                                              metadata_written st3 @ [i]\<rparr>)))))))"

text \<open>\<open>_process_single_point\<close>: \<open>except Exception\<close> logs and returns \<open>None\<close>.\<close>

definition process_single_point ::
  "('p, 'm) collaborators \<Rightarrow> 'p \<Rightarrow> nat \<Rightarrow> processor_state \<Rightarrow> (exn + 'm option) \<times> processor_state" where
  "process_single_point c point i st =
     (case try_single_point c point i st of
        (Inl ex, st1) \<Rightarrow> if is_Exception ex then (Inr None, st1) else (Inl ex, st1)
      | (Inr r, st1) \<Rightarrow> (Inr r, st1))"

text \<open>
  The loop of \<open>_process_points\<close> over \<open>enumerate(points)\<close>, with the list \<open>image_metadatas\<close>
  built so far.
\<close>

fun points_loop ::
  "('p, 'm) collaborators \<Rightarrow> (nat \<times> 'p) list \<Rightarrow> 'm list \<Rightarrow> processor_state \<Rightarrow>
     (exn + 'm list) \<times> processor_state" where
  "points_loop c [] image_metadatas st = (Inr image_metadatas, st)"
| "points_loop c ((i, point) # rest) image_metadatas st =
     (case process_single_point c point i st of
        (Inr (Some image_metadata), st1) \<Rightarrow>
          points_loop c rest (image_metadatas @ [image_metadata])
            (st1\<lparr>stats_successful_points := stats_successful_points st1 + 1\<rparr>)
      | (Inr None, st1) \<Rightarrow>
          points_loop c rest image_metadatas
            (st1\<lparr>stats_failed_points := stats_failed_points st1 + 1\<rparr>)
      | (Inl ex, st1) \<Rightarrow>
          if is_Exception ex
          then points_loop c rest image_metadatas
                 (st1\<lparr>stats_failed_points := stats_failed_points st1 + 1\<rparr>)
          else (Inl ex, st1))"

definition process_points ::
  "('p, 'm) collaborators \<Rightarrow> 'p list \<Rightarrow> processor_state \<Rightarrow> (exn + 'm list) \<times> processor_state" where
  "process_points c points st = points_loop c (enumerate 0 points) [] st"

text \<open>
  Collaborators and a state used to exercise the theorems below: points and metadata are
  numbers, every point has one tile, every download succeeds and every step after it
  returns. \<open>repository_collaborators\<close> has a downloader of the repository;
  \<open>renamed_collaborators\<close> differs in one respect: its downloader has the tile method under
  the name that \<open>DataProcessor\<close> calls.
\<close>

definition repository_collaborators :: "(nat, nat) collaborators" where
  "repository_collaborators =
     \<lparr>downloader_class = ''SyncDownloader'',
      tile_methods = repository_tile_methods (\<lambda>p. Inr [demo_tile]),
      fetch_tiles = (\<lambda>i ts. Inr [demo_ok 1 1]),
      render = (\<lambda>p rs. Inr (demo_image, 40 + p)),
      write_image = (\<lambda>i img. Inr ''point.png''),
      write_metadata = (\<lambda>i m. Inr ''point.json'')\<rparr>"

definition renamed_collaborators :: "(nat, nat) collaborators" where
  "renamed_collaborators =
     repository_collaborators
       \<lparr>tile_methods := (\<lambda>name. if name = ''calculate_tiles_around_point''
                                 then Some (\<lambda>p. Inr [demo_tile]) else None)\<rparr>"

definition fresh_state :: processor_state where
  "fresh_state = \<lparr>stats_successful_points = 0, stats_failed_points = 0, stats_total_tiles = 0,
                   stats_successful_tiles = 0, stats_failed_tiles = 0,
                   images_written = [], metadata_written = []\<rparr>"
section \<open>Properties of TileCache\<close>

lemma cache_inv_init: "cache_inv (TileCache_init n)"
  by (simp add: cache_inv_def TileCache_init_def)

lemma dict_has_iff: "dict_has d k \<longleftrightarrow> k \<in> set (map fst d)"
  by (simp add: dict_has_def map_of_eq_None_iff)

lemma get_hit:
  assumes "cache_inv c" "dict_has (cache c) k"
  shows "TileCache_get c k =
           (Inr (map_of (cache c) k), c\<lparr>access_order := remove1 k (access_order c) @ [k]\<rparr>)"
  using assms by (simp add: TileCache_get_def list_remove_def cache_inv_def dict_has_iff)

lemma get_miss: "\<not> dict_has (cache c) k \<Longrightarrow> TileCache_get c k = (Inr None, c)"
  by (simp add: TileCache_get_def)

lemma cache_inv_promote:
  assumes "cache_inv c" "dict_has (cache c) k"
  shows "cache_inv (c\<lparr>access_order := remove1 k (access_order c) @ [k]\<rparr>)"
  using assms by (auto simp: cache_inv_def dict_has_iff)

lemma put_present:
  assumes "cache_inv c" "dict_has (cache c) k"
  shows "TileCache_put c k img =
           (Inr (), c\<lparr>cache := AList.update k img (cache c),
                       access_order := remove1 k (access_order c) @ [k]\<rparr>)"
  using assms
  by (simp add: TileCache_put_def list_remove_def cache_inv_def dict_has_iff store_def)

lemma put_room:
  assumes "\<not> dict_has (cache c) k" "int (length (cache c)) < max_size c"
  shows "TileCache_put c k img = (Inr (), store c k img)"
  using assms by (simp add: TileCache_put_def)

lemma hd_order_in_dict:
  assumes "cache_inv c" "access_order c = a # ord"
  shows "dict_has (cache c) a"
  using assms by (auto simp: cache_inv_def dict_has_iff)

lemma put_full:
  assumes "cache_inv c" "\<not> dict_has (cache c) k" "int (length (cache c)) \<ge> max_size c"
    "access_order c = a # ord"
  shows "TileCache_put c k img =
           (Inr (), store (c\<lparr>cache := AList.delete a (cache c), access_order := ord\<rparr>) k img)"
  using assms hd_order_in_dict[OF assms(1,4)]
  by (simp add: TileCache_put_def list_pop0_def dict_del_def)

lemma put_empty_full:
  assumes "\<not> dict_has (cache c) k" "int (length (cache c)) \<ge> max_size c" "access_order c = []"
  shows "TileCache_put c k img = (Inl (IndexError ''pop from empty list''), c)"
  using assms by (simp add: TileCache_put_def list_pop0_def)

lemma cache_inv_store:
  assumes "cache_inv c" "\<not> dict_has (cache c) k"
  shows "cache_inv (store c k img)"
  using assms by (auto simp: cache_inv_def dict_has_iff store_def update_keys distinct_update)

lemma cache_inv_evict:
  assumes "cache_inv c" "access_order c = a # ord"
  shows "cache_inv (c\<lparr>cache := AList.delete a (cache c), access_order := ord\<rparr>)"
  using assms by (auto simp: cache_inv_def delete_keys distinct_removeAll)

lemma cache_inv_update:
  assumes "cache_inv c" "dict_has (cache c) k"
  shows "cache_inv (c\<lparr>cache := AList.update k img (cache c),
                       access_order := remove1 k (access_order c) @ [k]\<rparr>)"
  using assms by (auto simp: cache_inv_def dict_has_iff update_keys distinct_update)

lemma dict_has_evict:
  "dict_has (AList.delete a d) k \<longleftrightarrow> dict_has d k \<and> k \<noteq> a"
  by (auto simp: dict_has_iff delete_keys)

lemma cache_inv_put: "cache_inv c \<Longrightarrow> cache_inv (snd (TileCache_put c k img))"
proof -
  assume inv: "cache_inv c"
  show ?thesis
  proof (cases "dict_has (cache c) k")
    case True
    then show ?thesis by (simp add: put_present[OF inv] cache_inv_update[OF inv])
  next
    case miss: False
    show ?thesis
    proof (cases "int (length (cache c)) < max_size c")
      case True
      then show ?thesis by (simp add: put_room[OF miss] cache_inv_store[OF inv miss])
    next
      case full: False
      show ?thesis
      proof (cases "access_order c")
        case Nil
        with miss full inv show ?thesis by (simp add: put_empty_full)
      next
        case (Cons a ord)
        have "cache_inv (c\<lparr>cache := AList.delete a (cache c), access_order := ord\<rparr>)"
          by (rule cache_inv_evict[OF inv Cons])
        moreover have "\<not> dict_has (cache (c\<lparr>cache := AList.delete a (cache c), access_order := ord\<rparr>)) k"
          using miss by (simp add: dict_has_evict)
        ultimately show ?thesis
          using miss full Cons inv by (simp add: put_full cache_inv_store)
      qed
    qed
  qed
qed

lemma cache_inv_get: "cache_inv c \<Longrightarrow> cache_inv (snd (TileCache_get c k))"
  by (cases "dict_has (cache c) k") (simp_all add: get_hit get_miss cache_inv_promote)

lemma cache_inv_clear: "cache_inv (TileCache_clear c)"
  by (simp add: cache_inv_def TileCache_clear_def)

lemma cache_inv_run_ops: "cache_inv c \<Longrightarrow> cache_inv (snd (run_ops ops c))"
proof (induction ops arbitrary: c)
  case Nil
  then show ?case by simp
next
  case (Cons op ops)
  show ?case
  proof (cases op)
    case (Get k)
    from Cons.prems have "cache_inv (snd (TileCache_get c k))" by (rule cache_inv_get)
    with Cons.IH Get show ?thesis
      by (cases "TileCache_get c k") (auto split: sum.splits)
  next
    case (Put k img)
    from Cons.prems have "cache_inv (snd (TileCache_put c k img))" by (rule cache_inv_put)
    with Cons.IH Put show ?thesis
      by (cases "TileCache_put c k img") (auto split: sum.splits)
  next
    case Clear
    with Cons.IH show ?thesis by (simp add: cache_inv_clear)
  qed
qed



lemma length_delete_present:
  assumes "distinct (map fst d)" "dict_has d a"
  shows "length (AList.delete a d) = length d - 1"
proof -
  have "length (AList.delete a d) = length (map fst (AList.delete a d))" by simp
  also have "\<dots> = length (remove1 a (map fst d))"
    using assms(1) by (simp add: delete_keys distinct_remove1_removeAll)
  also have "\<dots> = length d - 1"
    using assms(2) by (simp add: length_remove1 dict_has_iff)
  finally show ?thesis .
qed

lemma update_absent: "k \<notin> fst ` set d \<Longrightarrow> AList.update k v d = d @ [(k, v)]"
  by (induction d) auto

lemma length_update_absent: "\<not> dict_has d k \<Longrightarrow> length (AList.update k v d) = Suc (length d)"
  by (simp add: update_absent dict_has_iff)

lemma length_update_present: "dict_has d k \<Longrightarrow> length (AList.update k v d) = length d"
proof -
  assume "dict_has d k"
  then have "map fst (AList.update k v d) = map fst d"
    by (simp add: update_keys dict_has_iff)
  then have "length (map fst (AList.update k v d)) = length (map fst d)" by simp
  then show ?thesis by simp
qed

lemma put_ok:
  assumes inv: "cache_inv c" and w: "size_ok c" and n: "1 \<le> max_size c"
  shows "fst (TileCache_put c k img) = Inr () \<and> size_ok (snd (TileCache_put c k img)) \<and>
         max_size (snd (TileCache_put c k img)) = max_size c"
proof (cases "dict_has (cache c) k")
  case True
  then show ?thesis
    using w by (simp add: put_present[OF inv] size_ok_def length_update_present)
next
  case miss: False
  show ?thesis
  proof (cases "int (length (cache c)) < max_size c")
    case True
    then show ?thesis
      using miss by (simp add: put_room size_ok_def store_def length_update_absent)
  next
    case full: False
    with n have "cache c \<noteq> []" by auto
    with inv have "access_order c \<noteq> []" by (auto simp: cache_inv_def)
    then obtain a ord where ao: "access_order c = a # ord" by (cases "access_order c") auto
    have a: "dict_has (cache c) a" by (rule hd_order_in_dict[OF inv ao])
    have d: "distinct (map fst (cache c))" using inv by (simp add: cache_inv_def)
    have "\<not> dict_has (AList.delete a (cache c)) k" using miss by (simp add: dict_has_evict)
    then show ?thesis
      using miss full ao w \<open>cache c \<noteq> []\<close>
      by (simp add: put_full[OF inv] size_ok_def store_def length_update_absent
          length_delete_present[OF d a])
  qed
qed

lemma get_frame:
  assumes "cache_inv c"
  shows "fst (TileCache_get c k) = Inr (map_of (cache c) k) \<and>
         cache (snd (TileCache_get c k)) = cache c \<and>
         max_size (snd (TileCache_get c k)) = max_size c"
  using assms
  by (cases "dict_has (cache c) k") (simp_all add: get_hit get_miss dict_has_def)

lemma run_ops_ok:
  assumes "cache_inv c" "size_ok c" "1 \<le> max_size c"
  shows "fst (run_ops ops c) = Inr () \<and> size_ok (snd (run_ops ops c)) \<and>
         max_size (snd (run_ops ops c)) = max_size c"
  using assms
proof (induction ops arbitrary: c)
  case Nil
  then show ?case by simp
next
  case (Cons op ops)
  show ?case
  proof (cases op)
    case (Get k)
    obtain r c' where g: "TileCache_get c k = (r, c')" by (cases "TileCache_get c k")
    have r: "r = Inr (map_of (cache c) k)" and c': "cache c' = cache c" "max_size c' = max_size c"
      using get_frame[OF Cons.prems(1), of k] g by simp_all
    have "cache_inv c'" using cache_inv_get[OF Cons.prems(1), of k] g by simp
    moreover have "size_ok c'" using Cons.prems(2) c' by (simp add: size_ok_def)
    moreover have "1 \<le> max_size c'" using Cons.prems(3) c' by simp
    ultimately show ?thesis using Cons.IH[of c'] Get g r c' by simp
  next
    case (Put k img)
    obtain r c' where p: "TileCache_put c k img = (r, c')" by (cases "TileCache_put c k img")
    have r: "r = Inr ()" and c': "size_ok c'" "max_size c' = max_size c"
      using put_ok[OF Cons.prems, of k img] p by simp_all
    have "cache_inv c'" using cache_inv_put[OF Cons.prems(1), of k img] p by simp
    then show ?thesis using Cons.IH[of c'] Put p r c' Cons.prems(3) by simp
  next
    case Clear
    have "cache_inv (TileCache_clear c)" by (rule cache_inv_clear)
    moreover have "size_ok (TileCache_clear c)" "1 \<le> max_size (TileCache_clear c)"
      using Cons.prems(3) by (simp_all add: size_ok_def TileCache_clear_def)
    ultimately show ?thesis using Cons.IH[of "TileCache_clear c"] Clear
      by (simp add: TileCache_clear_def)
  qed
qed

lemma puts_fresh:
  assumes "1 \<le> N" "distinct (map fst (pre @ kvs))" "int (length pre) \<le> N"
  shows "run_ops (map (\<lambda>(k, v). Put k v) kvs)
           \<lparr>max_size = N, cache = pre, access_order = map fst pre\<rparr> =
         (Inr (), \<lparr>max_size = N, cache = drop (length (pre @ kvs) - nat N) (pre @ kvs),
                   access_order = map fst (drop (length (pre @ kvs) - nat N) (pre @ kvs))\<rparr>)"
  using assms
proof (induction kvs arbitrary: pre)
  case Nil
  then show ?case by simp
next
  case (Cons kv kvs)
  obtain k v where kv: "kv = (k, v)" by (cases kv)
  let ?c = "\<lparr>max_size = N, cache = pre, access_order = map fst pre\<rparr>"
  have inv: "cache_inv ?c" using Cons.prems(2) by (simp add: cache_inv_def)
  have miss: "\<not> dict_has (cache ?c) k" using Cons.prems(2) kv by (auto simp: dict_has_iff)
  have knot: "k \<notin> fst ` set pre" using Cons.prems(2) kv by auto
  show ?case
  proof (cases "int (length pre) < N")
    case True
    have put: "TileCache_put ?c k v =
        (Inr (), \<lparr>max_size = N, cache = pre @ [(k, v)], access_order = map fst (pre @ [(k, v)])\<rparr>)"
      using True miss knot by (simp add: put_room store_def update_absent)
    have "distinct (map fst ((pre @ [(k, v)]) @ kvs))" using Cons.prems(2) kv by simp
    moreover have "int (length (pre @ [(k, v)])) \<le> N" using True by simp
    ultimately show ?thesis
      using Cons.IH[of "pre @ [(k, v)]"] Cons.prems(1) put kv by simp
  next
    case False
    with Cons.prems(1,3) have len: "int (length pre) = N" by simp
    with Cons.prems(1) obtain p ps where pre: "pre = p # ps" by (cases pre) auto
    have pnot: "fst p \<notin> fst ` set ps" using Cons.prems(2) pre by auto
    have knot': "k \<notin> fst ` set ps" using knot pre by auto
    have put: "TileCache_put ?c k v =
        (Inr (), \<lparr>max_size = N, cache = ps @ [(k, v)], access_order = map fst (ps @ [(k, v)])\<rparr>)"
      using put_full[OF inv miss, of "fst p" "map fst ps" v] len pre pnot knot'
      by (simp add: store_def update_absent delete_id)
    have "distinct (map fst ((ps @ [(k, v)]) @ kvs))" using Cons.prems(2) kv pre by simp
    moreover have "int (length (ps @ [(k, v)])) \<le> N" using len pre by simp
    moreover have "drop (length ((ps @ [(k, v)]) @ kvs) - nat N) ((ps @ [(k, v)]) @ kvs) =
                   drop (length (pre @ kv # kvs) - nat N) (pre @ kv # kvs)"
    proof -
      have n: "nat N = Suc (length ps)" using len pre by simp
      show ?thesis by (simp add: n pre kv)
    qed
    ultimately show ?thesis
      using Cons.IH[of "ps @ [(k, v)]"] Cons.prems(1) put kv by simp
  qed
qed

lemma dict_has_update: "dict_has (AList.update k v d) j \<longleftrightarrow> j = k \<or> dict_has d j"
  by (simp add: dict_has_def update_conv')

lemma reach_inv:
  assumes "run_ops ops (TileCache_init N) = (r, c)"
  shows "cache_inv c"
  using cache_inv_run_ops[OF cache_inv_init, of ops N] assms by simp

text \<open>
  C10. In a cache reached from the empty one, \<open>put\<close> with a key that is already present
  returns normally, replaces that key's image, moves the key to the end of the access order
  (the most-recently-used position) and evicts nothing, whatever the capacity: every other key
  keeps its image, the keys and the size are unchanged.
\<close>

theorem put_existing_key:
  assumes reach: "run_ops ops (TileCache_init N) = (Inr (), c)"
    and present: "dict_has (cache c) k"
  shows "\<exists>c'. TileCache_put c k img = (Inr (), c') \<and>
           map_of (cache c') = (map_of (cache c))(k \<mapsto> img) \<and>
           access_order c' = remove1 k (access_order c) @ [k] \<and>
           map fst (cache c') = map fst (cache c) \<and>
           TileCache_size c' = TileCache_size c \<and>
           max_size c' = max_size c"
proof -
  have inv: "cache_inv c" by (rule reach_inv[OF reach])
  let ?c' = "c\<lparr>cache := AList.update k img (cache c),
                access_order := remove1 k (access_order c) @ [k]\<rparr>"
  have "TileCache_put c k img = (Inr (), ?c')" by (rule put_present[OF inv present])
  moreover have "map_of (cache ?c') = (map_of (cache c))(k \<mapsto> img)"
    by (simp add: update_conv')
  moreover have "map fst (cache ?c') = map fst (cache c)"
    using present by (simp add: update_keys dict_has_iff)
  moreover have "TileCache_size ?c' = TileCache_size c"
    using present by (simp add: TileCache_size_def length_update_present)
  ultimately show ?thesis by simp
qed

text \<open>C10 at a full cache of capacity 2: the hypotheses hold and the key is replaced in place.\<close>

theorem put_existing_key_witness:
  "run_ops [Put (1, 2, 3) (10::nat), Put (4, 5, 6) 20] (TileCache_init 2) =
     (Inr (), \<lparr>max_size = 2, cache = [((1, 2, 3), 10::nat), ((4, 5, 6), 20)],
        access_order = [(1, 2, 3), (4, 5, 6)]\<rparr>) \<and>
   dict_has (cache \<lparr>max_size = 2, cache = [((1, 2, 3), 10::nat), ((4, 5, 6), 20)],
        access_order = [(1, 2, 3), (4, 5, 6)]\<rparr>) (1, 2, 3) \<and>
   (\<exists>c'. TileCache_put \<lparr>max_size = 2, cache = [((1, 2, 3), 10::nat), ((4, 5, 6), 20)],
        access_order = [(1, 2, 3), (4, 5, 6)]\<rparr> (1, 2, 3) 30 = (Inr (), c') \<and>
         map_of (cache c') = (map_of (cache \<lparr>max_size = 2, cache = [((1, 2, 3), 10::nat), ((4, 5, 6), 20)],
        access_order = [(1, 2, 3), (4, 5, 6)]\<rparr>))((1, 2, 3) \<mapsto> 30) \<and>
         access_order c' = remove1 (1, 2, 3) (access_order \<lparr>max_size = 2, cache = [((1, 2, 3), 10::nat), ((4, 5, 6), 20)],
        access_order = [(1, 2, 3), (4, 5, 6)]\<rparr>) @ [(1, 2, 3)] \<and>
         map fst (cache c') = map fst (cache \<lparr>max_size = 2, cache = [((1, 2, 3), 10::nat), ((4, 5, 6), 20)],
        access_order = [(1, 2, 3), (4, 5, 6)]\<rparr>) \<and>
         TileCache_size c' = TileCache_size \<lparr>max_size = 2, cache = [((1, 2, 3), 10::nat), ((4, 5, 6), 20)],
        access_order = [(1, 2, 3), (4, 5, 6)]\<rparr> \<and>
         max_size c' = max_size \<lparr>max_size = 2, cache = [((1, 2, 3), 10::nat), ((4, 5, 6), 20)],
        access_order = [(1, 2, 3), (4, 5, 6)]\<rparr>)"
proof -
  have h1: "run_ops [Put (1, 2, 3) (10::nat), Put (4, 5, 6) 20] (TileCache_init 2) =
     (Inr (), \<lparr>max_size = 2, cache = [((1, 2, 3), 10::nat), ((4, 5, 6), 20)],
        access_order = [(1, 2, 3), (4, 5, 6)]\<rparr>)"
    by code_simp
  have h2: "dict_has (cache \<lparr>max_size = 2, cache = [((1, 2, 3), 10::nat), ((4, 5, 6), 20)],
        access_order = [(1, 2, 3), (4, 5, 6)]\<rparr>) (1, 2, 3)"
    by code_simp
  show ?thesis
    by (rule conjI[OF h1 conjI[OF h2 put_existing_key[OF h1 h2, of 30]]])
qed

text \<open>
  C4 as stated fails for small capacities. With capacity 1, a hit on the only key makes it the
  most recently used one, and the next \<open>put\<close> of another key evicts it all the same. With
  capacity 0, the first \<open>put\<close> pops the empty access order and raises \<open>IndexError\<close>.
\<close>

theorem TileCache_lru_counterexample:
  "run_ops [Put (0, 0, 1) (7::nat), Get (0, 0, 1), Put (1, 0, 1) 8] (TileCache_init 1) =
     (Inr (), \<lparr>max_size = 1, cache = [((1, 0, 1), 8)], access_order = [(1, 0, 1)]\<rparr>) \<and>
   run_ops [Put (0, 0, 1) (7::nat)] (TileCache_init 0) = (Inl (IndexError ''pop from empty list''), TileCache_init 0)"
  by code_simp

text \<open>
  C4, amended. For a cache of capacity \<open>N \<ge> 1\<close>:
  \<^item> putting \<open>N + 1\<close> pairwise-distinct keys into the empty cache returns normally every
    time, evicts exactly the first (least recently accessed) key and retains the other \<open>N\<close>;
  \<^item> in a cache reached from the empty one, a \<open>get\<close> that hits returns the stored image and
    moves its key to the end of the access order; if the cache holds at least two entries, the
    next capacity-exceeding \<open>put\<close> (of an absent key) evicts the head of the access order,
    which is another key, and the key that was read stays cached;
  \<^item> every sequence of calls from the empty cache returns normally and leaves at most \<open>N\<close>
    entries.
\<close>

theorem TileCache_lru:
  assumes N: "1 \<le> N"
  shows
    "(distinct (map fst kvs) \<and> int (length kvs) = N + 1 \<longrightarrow>
        run_ops (map (\<lambda>(k, v). Put k v) kvs) (TileCache_init N) =
          (Inr (), \<lparr>max_size = N, cache = tl kvs, access_order = map fst (tl kvs)\<rparr>)) \<and>
     (run_ops ops (TileCache_init N) = (Inr (), c) \<and> dict_has (cache c) k \<longrightarrow>
        (\<exists>c'. TileCache_get c k = (Inr (map_of (cache c) k), c') \<and>
              cache c' = cache c \<and>
              access_order c' = remove1 k (access_order c) @ [k] \<and>
              (2 \<le> length (cache c) \<and> max_size c \<le> int (length (cache c)) \<and>
               \<not> dict_has (cache c) k2 \<longrightarrow>
                 (\<exists>c''. TileCache_put c' k2 img = (Inr (), c'') \<and>
                        hd (access_order c') \<noteq> k \<and>
                        \<not> dict_has (cache c'') (hd (access_order c')) \<and>
                        (\<forall>j. dict_has (cache c'') j \<longleftrightarrow>
                               j = k2 \<or> (dict_has (cache c) j \<and> j \<noteq> hd (access_order c'))) \<and>
                        dict_has (cache c'') k)))) \<and>
     (fst (run_ops ops2 (TileCache_init N)) = Inr () \<and>
      TileCache_size (snd (run_ops ops2 (TileCache_init N))) \<le> N)"
proof (intro conjI impI)
  assume a: "distinct (map fst kvs) \<and> int (length kvs) = N + 1"
  have "run_ops (map (\<lambda>(k, v). Put k v) kvs)
           \<lparr>max_size = N, cache = [], access_order = map fst []\<rparr> =
         (Inr (), \<lparr>max_size = N, cache = drop (length ([] @ kvs) - nat N) ([] @ kvs),
                   access_order = map fst (drop (length ([] @ kvs) - nat N) ([] @ kvs))\<rparr>)"
    using a N puts_fresh[of N "[]" kvs] by simp
  moreover have "length kvs - nat N = 1" using a N by linarith
  ultimately show "run_ops (map (\<lambda>(k, v). Put k v) kvs) (TileCache_init N) =
          (Inr (), \<lparr>max_size = N, cache = tl kvs, access_order = map fst (tl kvs)\<rparr>)"
    by (simp add: TileCache_init_def drop_Suc)
next
  assume a: "run_ops ops (TileCache_init N) = (Inr (), c) \<and> dict_has (cache c) k"
  then have inv: "cache_inv c" and present: "dict_has (cache c) k"
    using reach_inv by blast+
  let ?c' = "c\<lparr>access_order := remove1 k (access_order c) @ [k]\<rparr>"
  have g: "TileCache_get c k = (Inr (map_of (cache c) k), ?c')"
    by (rule get_hit[OF inv present])
  have inv': "cache_inv ?c'" by (rule cache_inv_promote[OF inv present])
  have nxt: "\<exists>c''. TileCache_put ?c' k2 img = (Inr (), c'') \<and>
                        hd (access_order ?c') \<noteq> k \<and>
                        \<not> dict_has (cache c'') (hd (access_order ?c')) \<and>
                        (\<forall>j. dict_has (cache c'') j \<longleftrightarrow>
                               j = k2 \<or> (dict_has (cache c) j \<and> j \<noteq> hd (access_order ?c'))) \<and>
                        dict_has (cache c'') k"
    if b: "2 \<le> length (cache c) \<and> max_size c \<le> int (length (cache c)) \<and>
               \<not> dict_has (cache c) k2"
  proof -
    have d: "distinct (access_order c)" and s: "set (access_order c) = set (map fst (cache c))"
      and dk: "distinct (map fst (cache c))"
      using inv by (simp_all add: cache_inv_def)
    have "length (access_order c) = length (map fst (cache c))"
      using d dk s by (metis distinct_card)
    then have len: "2 \<le> length (access_order c)" using b by simp
    have kin: "k \<in> set (access_order c)" using present s by (simp add: dict_has_iff)
    have "length (remove1 k (access_order c)) = length (access_order c) - 1"
      using kin by (simp add: length_remove1)
    with len have ne: "remove1 k (access_order c) \<noteq> []" by auto
    then obtain a ord where r: "remove1 k (access_order c) = a # ord"
      by (cases "remove1 k (access_order c)") auto
    have ao: "access_order ?c' = a # (ord @ [k])" using r by simp
    have "a \<in> set (remove1 k (access_order c))" using r by simp
    then have ak: "a \<noteq> k" and ain: "a \<in> set (access_order c)" using d by auto
    have miss: "\<not> dict_has (cache ?c') k2" using b by simp
    have full: "max_size ?c' \<le> int (length (cache ?c'))" using b by simp
    let ?c'' = "store (?c'\<lparr>cache := AList.delete a (cache ?c'), access_order := ord @ [k]\<rparr>) k2 img"
    have p: "TileCache_put ?c' k2 img = (Inr (), ?c'')"
      by (rule put_full[OF inv' miss full ao])
    have keys: "dict_has (cache ?c'') j \<longleftrightarrow> j = k2 \<or> (dict_has (cache c) j \<and> j \<noteq> a)" for j
      by (auto simp: store_def dict_has_update dict_has_evict)
    have "a \<noteq> k2" using ain s b by (auto simp: dict_has_iff)
    then show ?thesis
      using p ak keys present ao by auto
  qed
  show "\<exists>c'. TileCache_get c k = (Inr (map_of (cache c) k), c') \<and>
              cache c' = cache c \<and>
              access_order c' = remove1 k (access_order c) @ [k] \<and>
              (2 \<le> length (cache c) \<and> max_size c \<le> int (length (cache c)) \<and>
               \<not> dict_has (cache c) k2 \<longrightarrow>
                 (\<exists>c''. TileCache_put c' k2 img = (Inr (), c'') \<and>
                        hd (access_order c') \<noteq> k \<and>
                        \<not> dict_has (cache c'') (hd (access_order c')) \<and>
                        (\<forall>j. dict_has (cache c'') j \<longleftrightarrow>
                               j = k2 \<or> (dict_has (cache c) j \<and> j \<noteq> hd (access_order c'))) \<and>
                        dict_has (cache c'') k))"
    using g nxt by (intro exI[of _ ?c']) simp
next
  have i: "cache_inv (TileCache_init N :: 'c tile_cache)" by (rule cache_inv_init)
  have w: "size_ok (TileCache_init N :: 'c tile_cache)" using N
    by (simp add: size_ok_def TileCache_init_def)
  have m: "1 \<le> max_size (TileCache_init N :: 'c tile_cache)" using N
    by (simp add: TileCache_init_def)
  from run_ops_ok[OF i w m, of ops2]
  show "fst (run_ops ops2 (TileCache_init N)) = Inr ()"
    and "TileCache_size (snd (run_ops ops2 (TileCache_init N))) \<le> N"
    by (simp_all add: size_ok_def TileCache_size_def TileCache_init_def)
qed

lemma ex_discharge:
  "\<exists>c'. A c' \<and> B c' \<and> D c' \<and> (Q \<longrightarrow> E c') \<Longrightarrow> Q \<Longrightarrow> \<exists>c'. A c' \<and> B c' \<and> D c' \<and> E c'"
  by blast

text \<open>C4 (amended) at capacity 2, with every hypothesis discharged.\<close>

theorem TileCache_lru_witness:
  "(1::int) \<le> 2 \<and>
   (distinct (map fst demo_kvs) \<and> int (length demo_kvs) = 2 + 1) \<and>
   run_ops (map (\<lambda>(k, v). Put k v) demo_kvs) (TileCache_init 2) =
     (Inr (), \<lparr>max_size = 2, cache = tl demo_kvs, access_order = map fst (tl demo_kvs)\<rparr>) \<and>
   (run_ops [Put (0, 0, 1) 10, Put (1, 0, 1) 20] (TileCache_init 2) = (Inr (), demo_cache) \<and>
    dict_has (cache demo_cache) (0, 0, 1)) \<and>
   (2 \<le> length (cache demo_cache) \<and> max_size demo_cache \<le> int (length (cache demo_cache)) \<and>
    \<not> dict_has (cache demo_cache) (0, 1, 1)) \<and>
   (\<exists>c'. TileCache_get demo_cache (0, 0, 1) = (Inr (map_of (cache demo_cache) (0, 0, 1)), c') \<and>
         cache c' = cache demo_cache \<and>
         access_order c' = remove1 (0, 0, 1) (access_order demo_cache) @ [(0, 0, 1)] \<and>
         (\<exists>c''. TileCache_put c' (0, 1, 1) 30 = (Inr (), c'') \<and>
                hd (access_order c') \<noteq> (0, 0, 1) \<and>
                \<not> dict_has (cache c'') (hd (access_order c')) \<and>
                (\<forall>j. dict_has (cache c'') j \<longleftrightarrow>
                       j = (0, 1, 1) \<or>
                       (dict_has (cache demo_cache) j \<and> j \<noteq> hd (access_order c'))) \<and>
                dict_has (cache c'') (0, 0, 1))) \<and>
   (fst (run_ops demo_ops (TileCache_init 2)) = Inr () \<and>
    TileCache_size (snd (run_ops demo_ops (TileCache_init 2))) \<le> 2)"
proof -
  have n: "(1::int) \<le> 2" by simp
  note t = TileCache_lru[OF n, of demo_kvs "[Put (0, 0, 1) 10, Put (1, 0, 1) 20]" demo_cache
      "(0, 0, 1)" "(0, 1, 1)" 30 demo_ops]
  have h1: "distinct (map fst demo_kvs) \<and> int (length demo_kvs) = 2 + 1"
    by code_simp
  have h2: "run_ops [Put (0, 0, 1) 10, Put (1, 0, 1) 20] (TileCache_init 2) = (Inr (), demo_cache) \<and>
    dict_has (cache demo_cache) (0, 0, 1)"
    by code_simp
  have h3: "2 \<le> length (cache demo_cache) \<and> max_size demo_cache \<le> int (length (cache demo_cache)) \<and>
    \<not> dict_has (cache demo_cache) (0, 1, 1)"
    by code_simp
  note a = mp[OF conjunct1[OF t] h1]
  note b = ex_discharge[OF mp[OF conjunct1[OF conjunct2[OF t]] h2] h3]
  note c = conjunct2[OF conjunct2[OF t]]
  show ?thesis
    by (rule conjI[OF n conjI[OF h1 conjI[OF a conjI[OF h2 conjI[OF h3 conjI[OF b c]]]]]])
qed

section \<open>Properties of the tile grid\<close>

lemma str_int_examples: "str_int 18 = ''18'' \<and> str_int (-205) = ''-205'' \<and> str_int 0 = ''0''"
  by code_simp

lemma create_tile_info_example: "create_tile_info demo_config 3 4 5 =
  \<lparr>tile_x = 3, tile_y = 4, tile_z = 5,
   url = ''http://mt0.google.com/vt/lyrs=s&hl=en&x=3&y=4&z=5'', file_path = ''./tiles/tile_5_3_4.png''\<rparr>"
  by code_simp

lemma tiles_loop_closed:
  assumes "0 \<le> zoom"
  shows "tiles_loop cfg center zoom cells tiles =
     Inr (tiles @ map (\<lambda>d. create_tile_info cfg (fst center + fst d) (snd center + snd d) zoom)
                     (filter (in_grid center zoom) cells))"
  using assms
proof (induction cells arbitrary: tiles)
  case Nil
  then show ?case by simp
next
  case (Cons d cells)
  obtain dx dy where d: "d = (dx, dy)" by (cases d)
  show ?case
    using Cons.prems Cons.IH by (simp add: d shift_left_one_def in_grid_def Let_def)
qed

lemma tiles_loop_negative_zoom:
  assumes "zoom < 0"
  shows "tiles_loop cfg center zoom cells tiles = (if cells = [] then Inr tiles else Inl (ValueError ''negative shift count''))"
  using assms by (cases cells) (auto simp: shift_left_one_def)

lemma calculate_tiles_in_bounds:
  assumes "calculate_tiles_for_point cfg center zoom grid_size = Inr ts" "t \<in> set ts"
  shows "tile_z t = zoom \<and> 0 \<le> tile_x t \<and> tile_x t < 2 ^ nat zoom \<and>
         0 \<le> tile_y t \<and> tile_y t < 2 ^ nat zoom \<and> 0 \<le> zoom \<and>
         \<bar>tile_x t - fst center\<bar> \<le> grid_size div 2 \<and> \<bar>tile_y t - snd center\<bar> \<le> grid_size div 2"
proof (cases "0 \<le> zoom")
  case True
  from assms True show ?thesis
    by (auto simp: calculate_tiles_for_point_def Let_def tiles_loop_closed[OF True] in_grid_def
        create_tile_info_def abs_le_iff)
next
  case False
  then have "zoom < 0" by simp
  with assms show ?thesis
    by (auto simp: calculate_tiles_for_point_def Let_def tiles_loop_negative_zoom split: if_splits)
qed

lemma calculate_tiles_full:
  assumes z: "0 \<le> zoom" and g: "odd grid_size" "1 \<le> grid_size"
    and inside: "0 \<le> fst center - grid_size div 2" "fst center + grid_size div 2 < 2 ^ nat zoom"
                "0 \<le> snd center - grid_size div 2" "snd center + grid_size div 2 < 2 ^ nat zoom"
  shows "\<exists>ts. calculate_tiles_for_point cfg center zoom grid_size = Inr ts \<and>
           int (length ts) = grid_size * grid_size \<and>
           map (\<lambda>t. (tile_x t, tile_y t)) ts =
             map (\<lambda>d. (fst center + fst d, snd center + snd d))
               (List.product [- (grid_size div 2)..grid_size div 2]
                             [- (grid_size div 2)..grid_size div 2]) \<and>
           distinct (map (\<lambda>t. (tile_x t, tile_y t)) ts)"
proof -
  let ?h = "grid_size div 2"
  let ?cells = "List.product [- ?h..?h] [- ?h..?h]"
  have all: "filter (in_grid center zoom) ?cells = ?cells"
    using inside by (auto simp: in_grid_def filter_id_conv)
  let ?ts = "map (\<lambda>d. create_tile_info cfg (fst center + fst d) (snd center + snd d) zoom) ?cells"
  have r: "calculate_tiles_for_point cfg center zoom grid_size = Inr ?ts"
    by (simp add: calculate_tiles_for_point_def Let_def tiles_loop_closed[OF z] all)
  have h2: "2 * ?h + 1 = grid_size" using g by presburger
  have "length [- ?h..?h] = nat grid_size" using h2 by (simp add: length_upto)
  then have len: "int (length ?ts) = grid_size * grid_size"
    using g by (simp add: nat_mult_distrib)
  have m: "map (\<lambda>t. (tile_x t, tile_y t)) ?ts =
           map (\<lambda>d. (fst center + fst d, snd center + snd d)) ?cells"
    by (simp add: create_tile_info_def comp_def)
  have "distinct ?cells" by (simp add: distinct_product)
  moreover have "inj_on (\<lambda>d. (fst center + fst d, snd center + snd d)) (set ?cells)"
    by (auto simp: inj_on_def)
  ultimately have "distinct (map (\<lambda>d. (fst center + fst d, snd center + snd d)) ?cells)"
    by (simp add: distinct_map)
  then have d: "distinct (map (\<lambda>t. (tile_x t, tile_y t)) ?ts)" unfolding m .
  from r len m d show ?thesis by blast
qed


text \<open>
  C9. Every tile that \<open>calculate_tiles_for_point\<close> returns is at the requested zoom, has
  \<open>0 \<le> x < 2^zoom\<close> and \<open>0 \<le> y < 2^zoom\<close> and lies within \<open>grid_size div 2\<close> of the
  centre tile: cells outside the pyramid are left out. For an odd \<open>grid_size \<ge> 1\<close> (grid sizes
  are odd by the data model, and \<open>DownloadConfig\<close> rejects even ones) whose whole neighbourhood
  lies inside the pyramid, the call returns exactly \<open>grid_size\<^sup>2\<close> pairwise-distinct tiles: the
  square of side \<open>grid_size\<close> centred on the centre tile, column by column.
\<close>

theorem calculate_tiles_for_point_grid:
  "(calculate_tiles_for_point cfg center zoom grid_size = Inr ts \<and> t \<in> set ts \<longrightarrow>
      tile_z t = zoom \<and> 0 \<le> tile_x t \<and> tile_x t < 2 ^ nat zoom \<and>
      0 \<le> tile_y t \<and> tile_y t < 2 ^ nat zoom \<and> 0 \<le> zoom \<and>
      \<bar>tile_x t - fst center\<bar> \<le> grid_size div 2 \<and> \<bar>tile_y t - snd center\<bar> \<le> grid_size div 2) \<and>
   (0 \<le> zoom \<and> odd grid_size \<and> 1 \<le> grid_size \<and>
    0 \<le> fst center - grid_size div 2 \<and> fst center + grid_size div 2 < 2 ^ nat zoom \<and>
    0 \<le> snd center - grid_size div 2 \<and> snd center + grid_size div 2 < 2 ^ nat zoom \<longrightarrow>
      (\<exists>ts. calculate_tiles_for_point cfg center zoom grid_size = Inr ts \<and>
            int (length ts) = grid_size * grid_size \<and>
            map (\<lambda>t. (tile_x t, tile_y t)) ts =
              map (\<lambda>d. (fst center + fst d, snd center + snd d))
                (List.product [- (grid_size div 2)..grid_size div 2]
                              [- (grid_size div 2)..grid_size div 2]) \<and>
            distinct (map (\<lambda>t. (tile_x t, tile_y t)) ts)))"
  using calculate_tiles_in_bounds[of cfg center zoom grid_size ts t]
    calculate_tiles_full[of zoom grid_size center cfg]
  by blast

text \<open>C9 at the centre tile \<open>(2, 2)\<close> of zoom 3 with a 3 by 3 grid.\<close>

theorem calculate_tiles_for_point_grid_witness:
  "(calculate_tiles_for_point demo_config (2, 2) 3 3 = Inr demo_tiles \<and>
    create_tile_info demo_config 1 3 3 \<in> set demo_tiles) \<and>
   ((0::int) \<le> 3 \<and> odd (3::int) \<and> (1::int) \<le> 3 \<and>
    0 \<le> fst (2::int, 2::int) - 3 div 2 \<and> fst (2::int, 2::int) + 3 div 2 < 2 ^ nat 3 \<and>
    0 \<le> snd (2::int, 2::int) - 3 div 2 \<and> snd (2::int, 2::int) + 3 div 2 < 2 ^ nat 3) \<and>
   (tile_z (create_tile_info demo_config 1 3 3) = 3 \<and>
    0 \<le> tile_x (create_tile_info demo_config 1 3 3) \<and>
    tile_x (create_tile_info demo_config 1 3 3) < 2 ^ nat 3 \<and>
    0 \<le> tile_y (create_tile_info demo_config 1 3 3) \<and>
    tile_y (create_tile_info demo_config 1 3 3) < 2 ^ nat 3 \<and> (0::int) \<le> 3 \<and>
    \<bar>tile_x (create_tile_info demo_config 1 3 3) - fst (2::int, 2::int)\<bar> \<le> 3 div 2 \<and>
    \<bar>tile_y (create_tile_info demo_config 1 3 3) - snd (2::int, 2::int)\<bar> \<le> 3 div 2) \<and>
   (\<exists>ts. calculate_tiles_for_point demo_config (2, 2) 3 3 = Inr ts \<and>
         int (length ts) = 3 * 3 \<and>
         map (\<lambda>t. (tile_x t, tile_y t)) ts =
           map (\<lambda>d. (fst (2::int, 2::int) + fst d, snd (2::int, 2::int) + snd d))
             (List.product [- (3 div 2)..3 div 2] [- (3 div 2)..3 div 2]) \<and>
         distinct (map (\<lambda>t. (tile_x t, tile_y t)) ts))"
proof -
  note t = calculate_tiles_for_point_grid[of demo_config "(2, 2)" 3 3 demo_tiles
      "create_tile_info demo_config 1 3 3"]
  have h1: "calculate_tiles_for_point demo_config (2, 2) 3 3 = Inr demo_tiles \<and>
    create_tile_info demo_config 1 3 3 \<in> set demo_tiles"
    by code_simp
  have h2: "(0::int) \<le> 3 \<and> odd (3::int) \<and> (1::int) \<le> 3 \<and>
    0 \<le> fst (2::int, 2::int) - 3 div 2 \<and> fst (2::int, 2::int) + 3 div 2 < 2 ^ nat 3 \<and>
    0 \<le> snd (2::int, 2::int) - 3 div 2 \<and> snd (2::int, 2::int) + 3 div 2 < 2 ^ nat 3"
    by simp
  show ?thesis
    by (rule conjI[OF h1 conjI[OF h2 conjI[OF mp[OF conjunct1[OF t] h1]
              mp[OF conjunct2[OF t] h2]]]])
qed

section \<open>Properties of the tile merger\<close>

lemma cell_image_size:
  "width (cell_image lib m k) = tile_size \<and> height (cell_image lib m k) = tile_size"
  by (auto simp: cell_image_def fit_tile_def resize_def gray_tile_def image_size_def
      split: option.splits)

lemma merge_cell_paste:
  "merged_image (merge_cell lib m start cell st) =
     paste (merged_image st) (cell_image lib m (fst start + snd cell, snd start + fst cell))
       (snd cell * tile_size, fst cell * tile_size)"
  by (simp add: merge_cell_def cell_image_def fill_missing_tile_def Let_def split: option.splits)

lemma paste_size: "width (paste c t p) = width c \<and> height (paste c t p) = height c"
  by (simp add: paste_def)

lemma in_box_iff:
  fixes u g :: int
  shows "g * 256 \<le> u \<and> u < g * 256 + 256 \<longleftrightarrow> u div 256 = g"
  by auto

lemma box_offset:
  fixes u :: int
  shows "u - (u div 256) * 256 = u mod 256"
  by (simp add: minus_div_mult_eq_mod)

lemma merge_cell_pixels:
  "pixels (merged_image (merge_cell lib m start cell st)) (u, v) =
     (if (v div 256, u div 256) = cell \<and> 0 \<le> u \<and> u < width (merged_image st) \<and>
         0 \<le> v \<and> v < height (merged_image st)
      then pixels (cell_image lib m (fst start + u div 256, snd start + v div 256))
             (u mod 256, v mod 256)
      else pixels (merged_image st) (u, v))"
proof -
  obtain gy gx where c: "cell = (gy, gx)" by (cases cell)
  have w: "width (cell_image lib m (fst start + gx, snd start + gy)) = 256"
    and h: "height (cell_image lib m (fst start + gx, snd start + gy)) = 256"
    using cell_image_size[of lib m] by (simp_all add: tile_size_def)
  show ?thesis
    unfolding merge_cell_paste c
    by (auto simp: paste_def w h tile_size_def in_box_iff box_offset)
qed

lemma merge_cell_size:
  "width (merged_image (merge_cell lib m start cell st)) = width (merged_image st) \<and>
   height (merged_image (merge_cell lib m start cell st)) = height (merged_image st)"
  by (simp add: merge_cell_paste paste_size)

lemma fold_merge_size:
  "width (merged_image (fold (merge_cell lib m start) cells st)) = width (merged_image st) \<and>
   height (merged_image (fold (merge_cell lib m start) cells st)) = height (merged_image st)"
  by (induction cells arbitrary: st) (simp_all add: merge_cell_size)

lemma fold_merge_pixels:
  "pixels (merged_image (fold (merge_cell lib m start) cells st)) (u, v) =
     (if (v div 256, u div 256) \<in> set cells \<and> 0 \<le> u \<and> u < width (merged_image st) \<and>
         0 \<le> v \<and> v < height (merged_image st)
      then pixels (cell_image lib m (fst start + u div 256, snd start + v div 256))
             (u mod 256, v mod 256)
      else pixels (merged_image st) (u, v))"
proof (induction cells arbitrary: st)
  case Nil
  then show ?case by simp
next
  case (Cons c cells)
  show ?case
    by (simp add: Cons.IH merge_cell_size merge_cell_pixels)
qed

lemma tile_map_step_lookup:
  "map_of (tile_map_step r m) k =
     (if usable r \<and> result_xy r = k then result_image r else map_of m k)"
  by (auto simp: tile_map_step_def usable_def update_conv' split: option.splits)

lemma fold_snoc: "fold f (xs @ [x]) m = f x (fold f xs m)"
  by simp

lemma tile_map_none:
  "map_of (fold tile_map_step rs m) k = None \<longleftrightarrow>
     map_of m k = None \<and> \<not> (\<exists>r \<in> set rs. usable r \<and> result_xy r = k)"
proof (induction rs rule: rev_induct)
  case Nil
  then show ?case by simp
next
  case (snoc r rs)
  show ?case
    unfolding fold_snoc tile_map_step_lookup using snoc.IH
    by (auto simp: usable_def)
qed

lemma tile_map_some:
  assumes "distinct (map result_xy (filter usable rs))"
  shows "map_of (fold tile_map_step rs []) k = Some img \<longleftrightarrow>
     (\<exists>r \<in> set rs. usable r \<and> result_xy r = k \<and> result_image r = Some img)"
  using assms
proof (induction rs rule: rev_induct)
  case Nil
  then show ?case by simp
next
  case (snoc r rs)
  have d: "distinct (map result_xy (filter usable rs))" using snoc.prems by simp
  show ?case
  proof (cases "usable r \<and> result_xy r = k")
    case True
    then have notin: "result_xy r \<notin> set (map result_xy (filter usable rs))"
      using snoc.prems by simp
    have "\<not> (\<exists>r' \<in> set rs. usable r' \<and> result_xy r' = k)"
    proof
      assume "\<exists>r' \<in> set rs. usable r' \<and> result_xy r' = k"
      then obtain r' where r': "r' \<in> set rs" "usable r'" "result_xy r' = k" by blast
      then have "r' \<in> set (filter usable rs)" by simp
      then have "result_xy r' \<in> set (map result_xy (filter usable rs))"
        by (simp only: set_map) (rule imageI)
      with r' True notin show False by simp
    qed
    with True show ?thesis
      unfolding fold_snoc tile_map_step_lookup by auto
  next
    case False
    then show ?thesis
      unfolding fold_snoc tile_map_step_lookup using snoc.IH[OF d] by auto
  qed
qed

lemma usable_distinct:
  assumes "distinct (map result_xy (filter success rs))"
  shows "distinct (map result_xy (filter usable rs))"
proof -
  have eq: "filter usable rs = filter (\<lambda>r. result_image r \<noteq> None) (filter success rs)"
    by (induction rs) (auto simp: usable_def)
  show ?thesis
    unfolding eq using assms by (rule distinct_map_filter)
qed

lemma tile_map_perm:
  assumes p: "mset rs = mset rs'" and d: "distinct (map result_xy (filter success rs))"
  shows "map_of (build_tile_map rs) = map_of (build_tile_map rs')"
proof (rule ext)
  fix k
  have d1: "distinct (map result_xy (filter usable rs))" by (rule usable_distinct[OF d])
  have "mset (map result_xy (filter usable rs)) = mset (map result_xy (filter usable rs'))"
    using p by simp
  with d1 have d2: "distinct (map result_xy (filter usable rs'))"
    by (metis mset_eq_imp_distinct_iff)
  have s: "set rs = set rs'" using p by (rule mset_eq_setD)
  show "map_of (build_tile_map rs) k = map_of (build_tile_map rs') k"
  proof (cases "map_of (build_tile_map rs) k")
    case None
    then have "\<not> (\<exists>r \<in> set rs. usable r \<and> result_xy r = k)"
      by (simp add: build_tile_map_def tile_map_none)
    then have "map_of (build_tile_map rs') k = None"
      using s by (simp add: build_tile_map_def tile_map_none)
    with None show ?thesis by simp
  next
    case (Some img)
    then have "map_of (build_tile_map rs') k = Some img"
      using s by (simp add: build_tile_map_def tile_map_some[OF d1] tile_map_some[OF d2])
    with Some show ?thesis by simp
  qed
qed

lemma merge_cell_cong:
  assumes "map_of m = map_of m'"
  shows "merge_cell lib m = merge_cell lib m'"
  by (intro ext) (simp add: merge_cell_def assms)

text \<open>
  C8. When the successful results of a list have pairwise-distinct \<open>(x, y)\<close> coordinates,
  \<open>merge_tiles\<close> returns the same outcome, pixel for pixel, for every permutation of the list:
  the merger looks tiles up by coordinate and never by position.
\<close>

theorem merge_tiles_permutation:
  assumes "mset download_results = mset download_results'"
    and "distinct (map result_xy (filter success download_results))"
  shows "merge_tiles lib download_results grid_size center_tile =
         merge_tiles lib download_results' grid_size center_tile"
  using merge_cell_cong[OF tile_map_perm[OF assms], of lib]
  by (simp add: merge_tiles_def merge_loop_def Let_def split: sum.splits)

lemma grid_cells_mem:
  "(a, b) \<in> set (grid_cells g) \<longleftrightarrow> 0 \<le> a \<and> a < g \<and> 0 \<le> b \<and> b < g"
  by (auto simp: grid_cells_def)

lemma div_in_grid:
  fixes u g :: int
  shows "0 \<le> u div 256 \<and> u div 256 < g \<longleftrightarrow> 0 \<le> u \<and> u < g * 256"
  by (auto simp: pos_imp_zdiv_nonneg_iff div_less_iff_less_mult)

lemma merge_tiles_pixels:
  assumes g: "0 \<le> grid_size"
  shows "\<exists>img. merge_tiles lib rs grid_size center = Inr img \<and>
           width img = grid_size * tile_size \<and> height img = grid_size * tile_size \<and>
           (\<forall>u v. 0 \<le> u \<and> u < grid_size * 256 \<and> 0 \<le> v \<and> v < grid_size * 256 \<longrightarrow>
              pixels img (u, v) =
                pixels (cell_image lib (build_tile_map rs)
                          (tile_x center - grid_size div 2 + u div 256,
                           tile_y center - grid_size div 2 + v div 256))
                       (u mod 256, v mod 256))"
proof -
  let ?canvas = "\<lparr>width = grid_size * tile_size, height = grid_size * tile_size,
                   pixels = (\<lambda>_. (0, 0, 0))\<rparr>"
  let ?init = "\<lparr>merged_image = ?canvas, successful_tiles = 0, missing_tiles = []\<rparr>"
  let ?start = "(tile_x center - grid_size div 2, tile_y center - grid_size div 2)"
  let ?st = "fold (merge_cell lib (build_tile_map rs) ?start) (grid_cells grid_size) ?init"
  have new: "Image_new (grid_size * tile_size, grid_size * tile_size) (0, 0, 0) = Inr ?canvas"
    using g by (simp add: Image_new_def tile_size_def)
  have r: "merge_tiles lib rs grid_size center = Inr (merged_image ?st)"
    by (simp add: merge_tiles_def merge_loop_def Let_def new)
  have sz: "width (merged_image ?st) = grid_size * tile_size"
           "height (merged_image ?st) = grid_size * tile_size"
    using fold_merge_size[of lib "build_tile_map rs" ?start "grid_cells grid_size" ?init]
    by simp_all
  have px: "pixels (merged_image ?st) (u, v) =
                pixels (cell_image lib (build_tile_map rs)
                          (tile_x center - grid_size div 2 + u div 256,
                           tile_y center - grid_size div 2 + v div 256))
                       (u mod 256, v mod 256)"
    if "0 \<le> u \<and> u < grid_size * 256 \<and> 0 \<le> v \<and> v < grid_size * 256" for u v
  proof -
    have "(v div 256, u div 256) \<in> set (grid_cells grid_size)"
      using that div_in_grid[of u grid_size] div_in_grid[of v grid_size]
      by (simp add: grid_cells_mem)
    then show ?thesis
      using that by (simp add: fold_merge_pixels tile_size_def)
  qed
  from r sz px show ?thesis by blast
qed

text \<open>
  C2. For every odd \<open>grid_size \<ge> 1\<close>, every centre tile and every list of download results
  (empty, all failed, or anything else), \<open>merge_tiles\<close> returns normally with a canvas of
  exactly \<open>grid_size * 256\<close> by \<open>grid_size * 256\<close> pixels, and every grid cell whose tile has
  no successful result with an image shows the placeholder tile, pixel for pixel.
\<close>

theorem merge_tiles_canvas:
  assumes "odd grid_size" and "1 \<le> grid_size"
  shows "\<exists>img. merge_tiles lib download_results grid_size center_tile = Inr img \<and>
           width img = grid_size * 256 \<and> height img = grid_size * 256 \<and>
           (\<forall>gx gy u v.
              0 \<le> gx \<and> gx < grid_size \<and> 0 \<le> gy \<and> gy < grid_size \<and>
              0 \<le> u \<and> u < 256 \<and> 0 \<le> v \<and> v < 256 \<and>
              \<not> (\<exists>r \<in> set download_results. usable r \<and>
                     result_xy r = (tile_x center_tile - grid_size div 2 + gx,
                                    tile_y center_tile - grid_size div 2 + gy)) \<longrightarrow>
              pixels img (gx * 256 + u, gy * 256 + v) = pixels (gray_tile lib) (u, v))"
proof -
  have g: "0 \<le> grid_size" using assms(2) by simp
  from merge_tiles_pixels[OF g, of lib download_results center_tile] obtain img where
    r: "merge_tiles lib download_results grid_size center_tile = Inr img"
    and w: "width img = grid_size * tile_size" and h: "height img = grid_size * tile_size"
    and px: "\<And>u v. 0 \<le> u \<and> u < grid_size * 256 \<and> 0 \<le> v \<and> v < grid_size * 256 \<Longrightarrow>
              pixels img (u, v) =
                pixels (cell_image lib (build_tile_map download_results)
                          (tile_x center_tile - grid_size div 2 + u div 256,
                           tile_y center_tile - grid_size div 2 + v div 256))
                       (u mod 256, v mod 256)"
    by blast
  have cell: "pixels img (gx * 256 + u, gy * 256 + v) = pixels (gray_tile lib) (u, v)"
    if c: "0 \<le> gx \<and> gx < grid_size \<and> 0 \<le> gy \<and> gy < grid_size \<and>
              0 \<le> u \<and> u < 256 \<and> 0 \<le> v \<and> v < 256 \<and>
              \<not> (\<exists>r \<in> set download_results. usable r \<and>
                     result_xy r = (tile_x center_tile - grid_size div 2 + gx,
                                    tile_y center_tile - grid_size div 2 + gy))"
    for gx gy u v
  proof -
    have du: "(gx * 256 + u) div 256 = gx" "(gx * 256 + u) mod 256 = u"
      using c by simp_all
    have dv: "(gy * 256 + v) div 256 = gy" "(gy * 256 + v) mod 256 = v"
      using c by simp_all
    have "gx * 256 + u < grid_size * 256" "gy * 256 + v < grid_size * 256"
      using c by auto
    moreover have "0 \<le> gx * 256 + u" "0 \<le> gy * 256 + v" using c by auto
    ultimately have "pixels img (gx * 256 + u, gy * 256 + v) =
        pixels (cell_image lib (build_tile_map download_results)
                  (tile_x center_tile - grid_size div 2 + gx,
                   tile_y center_tile - grid_size div 2 + gy)) (u, v)"
      using px[of "gx * 256 + u" "gy * 256 + v"] c by (simp add: du dv)
    moreover have "map_of (build_tile_map download_results)
        (tile_x center_tile - grid_size div 2 + gx, tile_y center_tile - grid_size div 2 + gy) = None"
      using c by (simp add: build_tile_map_def tile_map_none)
    ultimately show ?thesis by (simp add: cell_image_def)
  qed
  from r w h cell show ?thesis
    by (intro exI[of _ img]) (simp add: tile_size_def)
qed

text \<open>C2 on a 3 by 3 grid around tile \<open>(2, 2)\<close>: the download of the corner tile \<open>(1, 1)\<close> failed.\<close>

theorem merge_tiles_canvas_witness:
  "odd (3::int) \<and> (1::int) \<le> 3 \<and>
   ((0::int) \<le> 0 \<and> (0::int) < 3 \<and> (0::int) \<le> 0 \<and> (0::int) < 3 \<and>
    (0::int) \<le> 5 \<and> (5::int) < 256 \<and> (0::int) \<le> 7 \<and> (7::int) < 256 \<and>
    \<not> (\<exists>r \<in> set demo_results. usable r \<and>
           result_xy r = (tile_x (create_tile_info demo_config 2 2 3) - 3 div 2 + 0,
                          tile_y (create_tile_info demo_config 2 2 3) - 3 div 2 + 0))) \<and>
   (\<exists>img. merge_tiles demo_pil demo_results 3 (create_tile_info demo_config 2 2 3) = Inr img \<and>
         width img = 3 * 256 \<and> height img = 3 * 256 \<and>
         pixels img (0 * 256 + 5, 0 * 256 + 7) = pixels (gray_tile demo_pil) (5, 7))"
proof -
  have h1: "odd (3::int)" and h2: "(1::int) \<le> 3" by simp_all
  have h3: "(0::int) \<le> 0 \<and> (0::int) < 3 \<and> (0::int) \<le> 0 \<and> (0::int) < 3 \<and>
    (0::int) \<le> 5 \<and> (5::int) < 256 \<and> (0::int) \<le> 7 \<and> (7::int) < 256 \<and>
    \<not> (\<exists>r \<in> set demo_results. usable r \<and>
           result_xy r = (tile_x (create_tile_info demo_config 2 2 3) - 3 div 2 + 0,
                          tile_y (create_tile_info demo_config 2 2 3) - 3 div 2 + 0))"
    by (simp add: demo_results_def demo_ok_def demo_failed_def usable_def result_xy_def
        create_tile_info_def)
  from merge_tiles_canvas[OF h1 h2, of demo_pil demo_results "create_tile_info demo_config 2 2 3"]
  obtain img where I:
    "merge_tiles demo_pil demo_results 3 (create_tile_info demo_config 2 2 3) = Inr img \<and>
     width img = 3 * 256 \<and> height img = 3 * 256 \<and>
     (\<forall>gx gy u v.
              0 \<le> gx \<and> gx < 3 \<and> 0 \<le> gy \<and> gy < 3 \<and>
              0 \<le> u \<and> u < 256 \<and> 0 \<le> v \<and> v < 256 \<and>
              \<not> (\<exists>r \<in> set demo_results. usable r \<and>
                     result_xy r = (tile_x (create_tile_info demo_config 2 2 3) - 3 div 2 + gx,
                                    tile_y (create_tile_info demo_config 2 2 3) - 3 div 2 + gy)) \<longrightarrow>
              pixels img (gx * 256 + u, gy * 256 + v) = pixels (gray_tile demo_pil) (u, v))" ..
  note r = conjunct1[OF I]
    and w = conjunct1[OF conjunct2[OF I]]
    and h = conjunct1[OF conjunct2[OF conjunct2[OF I]]]
    and all = conjunct2[OF conjunct2[OF conjunct2[OF I]]]
  note p = mp[OF spec[OF spec[OF spec[OF spec[OF all, of 0], of 0], of 5], of 7] h3]
  have "\<exists>img. merge_tiles demo_pil demo_results 3 (create_tile_info demo_config 2 2 3) = Inr img \<and>
         width img = 3 * 256 \<and> height img = 3 * 256 \<and>
         pixels img (0 * 256 + 5, 0 * 256 + 7) = pixels (gray_tile demo_pil) (5, 7)"
    using r w h p by (intro exI[of _ img] conjI)
  then show ?thesis
    by (rule conjI[OF h1 conjI[OF h2 conjI[OF h3]]])
qed

text \<open>C8 on three results in two different orders.\<close>

theorem merge_tiles_permutation_witness:
  "mset demo_results = mset [demo_ok 3 2, demo_ok 2 2, demo_failed 1 1] \<and>
   distinct (map result_xy (filter success demo_results)) \<and>
   merge_tiles demo_pil demo_results 3 (create_tile_info demo_config 2 2 3) =
   merge_tiles demo_pil [demo_ok 3 2, demo_ok 2 2, demo_failed 1 1] 3
     (create_tile_info demo_config 2 2 3)"
proof -
  have h1: "mset demo_results = mset [demo_ok 3 2, demo_ok 2 2, demo_failed 1 1]"
    by (simp add: demo_results_def)
  have h2: "distinct (map result_xy (filter success demo_results))"
    by (simp add: demo_results_def demo_ok_def demo_failed_def result_xy_def
        create_tile_info_def)
  show ?thesis
    by (rule conjI[OF h1 conjI[OF h2 merge_tiles_permutation[OF h1 h2]]])
qed
section \<open>Properties of the downloader\<close>

lemma same_world_refl: "same_world s s"
  by (simp add: same_world_def)

lemma load_cached_tile_ok:
  assumes "cache_inv (tile_cache s)"
  shows "\<exists>r s'. load_cached_tile t s = (Inr r, s') \<and> cache_inv (tile_cache s') \<and> same_world s s'"
proof -
  obtain g c where g: "TileCache_get (tile_cache s) (tile_key t) = (g, c)"
    by (cases "TileCache_get (tile_cache s) (tile_key t)")
  have gr: "g = Inr (map_of (cache (tile_cache s)) (tile_key t))"
    using get_frame[OF assms, of "tile_key t"] g by simp
  have ci: "cache_inv c" using cache_inv_get[OF assms, of "tile_key t"] g by simp
  show ?thesis
  proof (cases "map_of (cache (tile_cache s)) (tile_key t)")
    case (Some img)
    then show ?thesis using g gr ci by (simp add: load_cached_tile_def same_world_def)
  next
    case None
    show ?thesis
    proof (cases "disk s (file_path t)")
      case n: None
      then show ?thesis using g gr ci None by (simp add: load_cached_tile_def same_world_def)
    next
      case (Some f)
      show ?thesis
      proof (cases f)
        case n: None
        then show ?thesis using g gr ci None Some
          by (simp add: load_cached_tile_def same_world_def)
      next
        case (Some img)
        obtain p c' where p: "TileCache_put c (tile_key t) img = (p, c')"
          by (cases "TileCache_put c (tile_key t) img")
        have "cache_inv c'" using cache_inv_put[OF ci, of "tile_key t" img] p by simp
        then show ?thesis using g gr None \<open>disk s (file_path t) = Some f\<close> Some p
          by (cases p) (simp_all add: load_cached_tile_def same_world_def)
      qed
    qed
  qed
qed

lemma size_ok_get:
  assumes "cache_inv c" "size_ok c"
  shows "size_ok (snd (TileCache_get c k))"
  using get_frame[OF assms(1), of k] assms(2) by (simp add: size_ok_def)

lemma load_cached_tile_inv:
  assumes "downloader_inv s"
  shows "downloader_inv (snd (load_cached_tile t s))"
proof -
  have ci: "cache_inv (tile_cache s)" and so: "size_ok (tile_cache s)"
    and ms: "1 \<le> max_size (tile_cache s)"
    using assms by (simp_all add: downloader_inv_def)
  obtain g c where g: "TileCache_get (tile_cache s) (tile_key t) = (g, c)"
    by (cases "TileCache_get (tile_cache s) (tile_key t)")
  have c: "cache_inv c" "size_ok c" "1 \<le> max_size c"
    using cache_inv_get[OF ci, of "tile_key t"] size_ok_get[OF ci so, of "tile_key t"]
      get_frame[OF ci, of "tile_key t"] ms g by simp_all
  have p: "cache_inv c' \<and> size_ok c' \<and> 1 \<le> max_size c'"
    if "TileCache_put c (tile_key t) img = (r, c')" for img r c'
    using cache_inv_put[OF c(1), of "tile_key t" img] put_ok[OF c, of "tile_key t" img] c(3) that
    by simp
  show ?thesis
    using g c p
    by (auto simp: load_cached_tile_def downloader_inv_def
        split: sum.splits option.splits prod.splits)
qed

lemma save_tile_ok:
  assumes "cache_inv (tile_cache s)"
  shows "\<exists>r s'. save_tile e t img s = (r, s') \<and> (r = Inr () \<or> (\<exists>m. r = Inl (DownloadError m))) \<and>
           cache_inv (tile_cache s') \<and> same_world s s'"
proof (cases "can_save e (file_path t)")
  case False
  then show ?thesis using assms by (simp add: save_tile_def same_world_def)
next
  case True
  obtain p c where p: "TileCache_put (tile_cache s) (tile_key t) img = (p, c)"
    by (cases "TileCache_put (tile_cache s) (tile_key t) img")
  have "cache_inv c" using cache_inv_put[OF assms, of "tile_key t" img] p by simp
  then show ?thesis using True p
    by (cases p) (simp_all add: save_tile_def same_world_def Let_def)
qed

lemma save_tile_saves:
  assumes "downloader_inv s" "can_save e (file_path t)"
  shows "\<exists>s'. save_tile e t img s = (Inr (), s') \<and> downloader_inv s' \<and> same_world s s'"
proof -
  have c: "cache_inv (tile_cache s)" "size_ok (tile_cache s)" "1 \<le> max_size (tile_cache s)"
    using assms(1) by (simp_all add: downloader_inv_def)
  obtain p c' where p: "TileCache_put (tile_cache s) (tile_key t) img = (p, c')"
    by (cases "TileCache_put (tile_cache s) (tile_key t) img")
  have "p = Inr ()" "cache_inv c'" "size_ok c'" "1 \<le> max_size c'"
    using cache_inv_put[OF c(1), of "tile_key t" img] put_ok[OF c, of "tile_key t" img] c(3) p
    by simp_all
  then show ?thesis using assms(2) p
    by (simp add: save_tile_def same_world_def downloader_inv_def Let_def)
qed

lemma handle_response_ok:
  assumes "cache_inv (tile_cache s)"
  shows "\<exists>r s'. handle_response e t st ct len dec s = (r, s') \<and>
           cache_inv (tile_cache s') \<and> same_world s s' \<and>
           (case r of
              Inr res \<Rightarrow> success res \<and> result_tile res = t \<and>
                 \<not> ((400 \<le> st \<and> st < 600) \<or> take 6 ct \<noteq> ''image/'' \<or> len = 0 \<or>
                     dec = None \<or> \<not> can_save e (file_path t))
            | Inl ex \<Rightarrow> (\<exists>m. ex = DownloadError m) \<or> (\<exists>c m. ex = HTTPError c m))"
proof (cases "(400 \<le> st \<and> st < 600) \<or> take 6 ct \<noteq> ''image/'' \<or> len = 0 \<or> dec = None")
  case True
  then show ?thesis using assms
    by (auto simp: handle_response_def same_world_def)
next
  case False
  then obtain img where dec: "dec = Some img" by auto
  from save_tile_ok[OF assms, of e t img] obtain r s' where
    sv: "save_tile e t img s = (r, s')" "r = Inr () \<or> (\<exists>m. r = Inl (DownloadError m))"
        "cache_inv (tile_cache s')" "same_world s s'"
    by blast
  have cs: "r = Inr () \<Longrightarrow> can_save e (file_path t)"
    using sv(1) by (auto simp: save_tile_def split: if_splits)
  from sv(2) show ?thesis
  proof
    assume "r = Inr ()"
    then show ?thesis using False dec sv cs
      by (auto simp: handle_response_def success_result_def)
  next
    assume "\<exists>m. r = Inl (DownloadError m)"
    then show ?thesis using False dec sv
      by (auto simp: handle_response_def)
  qed
qed

lemma handle_response_fails:
  assumes "(400 \<le> st \<and> st < 600) \<or> take 6 ct \<noteq> ''image/'' \<or> len = 0 \<or> dec = None \<or>
           \<not> can_save e (file_path t)"
  shows "\<exists>ex. handle_response e t st ct len dec s = (Inl ex, s) \<and>
           ((\<exists>m. ex = DownloadError m) \<or> (\<exists>c m. ex = HTTPError c m))"
  using assms by (auto simp: handle_response_def save_tile_def split: option.splits)

lemma handle_response_saves:
  assumes "downloader_inv s"
    and "\<not> ((400 \<le> st \<and> st < 600) \<or> take 6 ct \<noteq> ''image/'' \<or> len = 0 \<or> dec = None \<or>
            \<not> can_save e (file_path t))"
  shows "\<exists>res s'. handle_response e t st ct len dec s = (Inr res, s') \<and> downloader_inv s' \<and>
           same_world s s' \<and> success res \<and> result_tile res = t"
proof -
  from assms(2) obtain img where dec: "dec = Some img" by auto
  from save_tile_saves[OF assms(1), of e t img] assms(2) obtain s' where
    "save_tile e t img s = (Inr (), s')" "downloader_inv s'" "same_world s s'"
    by blast
  then show ?thesis using assms(2) dec
    by (simp add: handle_response_def success_result_def)
qed

lemma waits_delay:
  assumes "waits_accepted cfg e"
  shows "uniform_error e n (request_interval_range cfg) = None"
    and "time_sleep e m (uniform e n (request_interval_range cfg)) = None"
  using assms by (simp_all add: waits_accepted_def)

lemma waits_backoff:
  assumes "waits_accepted cfg e" "0 \<le> k" "k < max_retries cfg"
  shows "pow_error e (backoff_base cfg) k = None"
    and "uniform_error e n (retry_wait_range cfg) = None"
    and "add_error e (float_pow e (backoff_base cfg) k) (uniform e n (retry_wait_range cfg)) = None"
    and "time_sleep e m (backoff_wait cfg e k n) = None"
  using assms by (simp_all add: waits_accepted_def backoff_wait_def)

lemma add_random_delay_ok:
  assumes "waits_accepted cfg e"
  shows "add_random_delay cfg e s =
           (Inr (), s\<lparr>rand_calls := Suc (rand_calls s),
                      trace := trace s @ [EvSleep (uniform e (rand_calls s) (request_interval_range cfg))]\<rparr>)"
  by (simp add: add_random_delay_def random_uniform_def sleep_def waits_delay[OF assms])

lemma reraise_cases:
  "reraise ex = KeyboardInterrupt \<and> ex = KeyboardInterrupt \<or> (\<exists>m. reraise ex = DownloadError m)"
  by (cases ex) (simp_all add: reraise_def)

lemma download_with_retry_ok:
  assumes inv: "cache_inv (tile_cache s)" and w: "waits_accepted cfg e"
  shows "\<exists>r s'. download_with_retry cfg e t a s = (r, s') \<and>
           cache_inv (tile_cache s') \<and>
           trace s' = trace s @ attempt_events cfg e t a (rand_calls s) \<and>
           net_calls s' = Suc (net_calls s) \<and>
           rand_calls s' = rand_calls s + (if a > 0 then 1 else 0) \<and>
           (case r of
              Inr res \<Rightarrow> success res \<and> result_tile res = t \<and> \<not> attempt_fails e t (net_calls s)
            | Inl ex \<Rightarrow> (ex = KeyboardInterrupt \<and>
                          net e (net_calls s) (url t) = NetRaises KeyboardInterrupt) \<or>
                         (\<exists>m. ex = DownloadError m))"
proof -
  define s1 where "s1 = (if a > 0 then s\<lparr>rand_calls := Suc (rand_calls s),
      trace := trace s @ [EvSleep (uniform e (rand_calls s) (request_interval_range cfg))]\<rparr> else s)"
  define s2 where "s2 = s1\<lparr>trace := trace s1 @ [EvHttpGet (url t)], net_calls := Suc (net_calls s1)\<rparr>"
  have d: "(if a > 0 then add_random_delay cfg e s else (Inr (), s)) = (Inr (), s1)"
    by (simp add: s1_def add_random_delay_ok[OF w])
  have n1: "net_calls s1 = net_calls s" by (simp add: s1_def)
  have s2p: "cache_inv (tile_cache s2)"
    "trace s2 = trace s @ attempt_events cfg e t a (rand_calls s)"
    "net_calls s2 = Suc (net_calls s)"
    "rand_calls s2 = rand_calls s + (if a > 0 then 1 else 0)"
    using inv by (simp_all add: s2_def s1_def attempt_events_def)
  show ?thesis
  proof (cases "net e (net_calls s) (url t)")
    case (NetRaises ex)
    then have "download_with_retry cfg e t a s = (Inl (reraise ex), s2)"
      by (simp add: download_with_retry_def try_download_def d n1 s2_def Let_def)
    then show ?thesis using s2p NetRaises reraise_cases[of ex] by auto
  next
    case (NetResponse st ct len dec)
    from handle_response_ok[OF s2p(1), of e t st ct len dec] obtain r s' where
      h: "handle_response e t st ct len dec s2 = (r, s')" "cache_inv (tile_cache s')"
         "same_world s2 s'"
         "(case r of
              Inr res \<Rightarrow> success res \<and> result_tile res = t \<and>
                 \<not> ((400 \<le> st \<and> st < 600) \<or> take 6 ct \<noteq> ''image/'' \<or> len = 0 \<or>
                     dec = None \<or> \<not> can_save e (file_path t))
            | Inl ex \<Rightarrow> (\<exists>m. ex = DownloadError m) \<or> (\<exists>c m. ex = HTTPError c m))"
      by blast
    have t: "try_download cfg e t a s = (r, s')"
      using h(1) NetResponse by (simp add: try_download_def d n1 s2_def Let_def)
    show ?thesis
    proof (cases r)
      case (Inl ex)
      then have "download_with_retry cfg e t a s = (Inl (reraise ex), s')"
        using t by (simp add: download_with_retry_def)
      moreover have "\<exists>m. reraise ex = DownloadError m"
        using h(4) Inl by (auto simp: reraise_def)
      ultimately show ?thesis using h(2,3) s2p by (auto simp: same_world_def)
    next
      case (Inr res)
      then have "download_with_retry cfg e t a s = (Inr res, s')"
        using t by (simp add: download_with_retry_def)
      then show ?thesis using h(2,3,4) s2p Inr NetResponse
        by (auto simp: same_world_def attempt_fails_def)
    qed
  qed
qed

text \<open>
  One attempt under the invariant of the downloader: it fails with a \<open>DownloadError\<close> exactly
  when \<open>attempt_fails\<close> holds of its request, and returns a successful result otherwise.
\<close>

lemma download_with_retry_run:
  assumes inv: "downloader_inv s" and w: "waits_accepted cfg e" and ni: "no_interrupt e"
  shows "\<exists>r s'. download_with_retry cfg e t a s = (r, s') \<and>
           downloader_inv s' \<and>
           trace s' = trace s @ attempt_events cfg e t a (rand_calls s) \<and>
           net_calls s' = Suc (net_calls s) \<and>
           rand_calls s' = rand_calls s + (if a > 0 then 1 else 0) \<and>
           (if attempt_fails e t (net_calls s) then \<exists>m. r = Inl (DownloadError m)
            else \<exists>res. r = Inr res \<and> success res \<and> result_tile res = t)"
proof -
  define s1 where "s1 = (if a > 0 then s\<lparr>rand_calls := Suc (rand_calls s),
      trace := trace s @ [EvSleep (uniform e (rand_calls s) (request_interval_range cfg))]\<rparr> else s)"
  define s2 where "s2 = s1\<lparr>trace := trace s1 @ [EvHttpGet (url t)], net_calls := Suc (net_calls s1)\<rparr>"
  have d: "(if a > 0 then add_random_delay cfg e s else (Inr (), s)) = (Inr (), s1)"
    by (simp add: s1_def add_random_delay_ok[OF w])
  have n1: "net_calls s1 = net_calls s" by (simp add: s1_def)
  have s2p: "downloader_inv s2"
    "trace s2 = trace s @ attempt_events cfg e t a (rand_calls s)"
    "net_calls s2 = Suc (net_calls s)"
    "rand_calls s2 = rand_calls s + (if a > 0 then 1 else 0)"
    using inv by (simp_all add: s2_def s1_def attempt_events_def downloader_inv_def)
  show ?thesis
  proof (cases "net e (net_calls s) (url t)")
    case (NetRaises ex)
    have nk: "ex \<noteq> KeyboardInterrupt" using ni NetRaises by (auto simp: no_interrupt_def)
    have "download_with_retry cfg e t a s = (Inl (reraise ex), s2)"
      using NetRaises by (simp add: download_with_retry_def try_download_def d n1 s2_def Let_def)
    moreover have "\<exists>m. reraise ex = DownloadError m" using reraise_cases[of ex] nk by auto
    moreover have "attempt_fails e t (net_calls s)" using NetRaises by (simp add: attempt_fails_def)
    ultimately show ?thesis using s2p by auto
  next
    case (NetResponse st ct len dec)
    have t: "try_download cfg e t a s = handle_response e t st ct len dec s2"
      using NetResponse by (simp add: try_download_def d n1 s2_def Let_def)
    show ?thesis
    proof (cases "attempt_fails e t (net_calls s)")
      case True
      then have "(400 \<le> st \<and> st < 600) \<or> take 6 ct \<noteq> ''image/'' \<or> len = 0 \<or> dec = None \<or>
                 \<not> can_save e (file_path t)"
        using NetResponse by (simp add: attempt_fails_def)
      from handle_response_fails[OF this, of s2] obtain ex where
        h: "handle_response e t st ct len dec s2 = (Inl ex, s2)"
           "(\<exists>m. ex = DownloadError m) \<or> (\<exists>c m. ex = HTTPError c m)"
        by blast
      have "download_with_retry cfg e t a s = (Inl (reraise ex), s2)"
        using t h(1) by (simp add: download_with_retry_def)
      moreover have "\<exists>m. reraise ex = DownloadError m" using h(2) by (auto simp: reraise_def)
      ultimately show ?thesis using s2p True by auto
    next
      case False
      then have "\<not> ((400 \<le> st \<and> st < 600) \<or> take 6 ct \<noteq> ''image/'' \<or> len = 0 \<or> dec = None \<or>
                 \<not> can_save e (file_path t))"
        using NetResponse by (simp add: attempt_fails_def)
      from handle_response_saves[OF s2p(1) this] obtain res s' where
        h: "handle_response e t st ct len dec s2 = (Inr res, s')" "downloader_inv s'"
           "same_world s2 s'" "success res" "result_tile res = t"
        by blast
      have "download_with_retry cfg e t a s = (Inr res, s')"
        using t h(1) by (simp add: download_with_retry_def)
      then show ?thesis using h(2,3,4,5) s2p False by (auto simp: same_world_def)
    qed
  qed
qed

text \<open>The two ways the handler of a failed attempt goes on: with the backoff wait, or without.\<close>

lemma attempts_backoff:
  assumes w: "waits_accepted cfg e"
    and h: "download_with_retry cfg e t a s = (Inl ex, s1)" "is_Exception ex"
    and a: "0 \<le> a" "a < max_retries cfg"
  shows "attempts cfg e t (a # ks) s =
           attempts cfg e t ks
             (s1\<lparr>rand_calls := Suc (rand_calls s1),
                 trace := trace s1 @ [EvSleep (backoff_wait cfg e a (rand_calls s1))]\<rparr>)"
  using h a waits_backoff[OF w a]
  by (simp add: random_uniform_def sleep_def Let_def backoff_wait_def)

lemma attempts_no_backoff:
  assumes h: "download_with_retry cfg e t a s = (Inl ex, s1)" "is_Exception ex"
    and a: "\<not> a < max_retries cfg"
  shows "attempts cfg e t (a # ks) s = attempts cfg e t ks s1"
  using h a by simp

lemma attempts_ok:
  assumes "cache_inv (tile_cache s)" and w: "waits_accepted cfg e" and "\<forall>a \<in> set ks. 0 \<le> a"
  shows "\<exists>r s'. attempts cfg e t ks s = (r, s') \<and> cache_inv (tile_cache s') \<and>
           ((\<exists>res. r = Inr res \<and> result_tile res = t) \<or>
            (r = Inl KeyboardInterrupt \<and> \<not> no_interrupt e))"
  using assms(1,3)
proof (induction ks arbitrary: s)
  case Nil
  then show ?case by (simp add: failure_result_def)
next
  case (Cons a ks)
  have a0: "0 \<le> a" and ks0: "\<forall>a \<in> set ks. 0 \<le> a" using Cons.prems(2) by simp_all
  from download_with_retry_ok[OF Cons.prems(1) w, of t a] obtain r s1 where
    h: "download_with_retry cfg e t a s = (r, s1)" "cache_inv (tile_cache s1)"
       "(case r of
              Inr res \<Rightarrow> success res \<and> result_tile res = t \<and> \<not> attempt_fails e t (net_calls s)
            | Inl ex \<Rightarrow> (ex = KeyboardInterrupt \<and>
                          net e (net_calls s) (url t) = NetRaises KeyboardInterrupt) \<or>
                         (\<exists>m. ex = DownloadError m))"
    by blast
  show ?case
  proof (cases r)
    case (Inr res)
    then show ?thesis using h by simp
  next
    case (Inl ex)
    show ?thesis
    proof (cases "ex = KeyboardInterrupt")
      case True
      then have "\<not> no_interrupt e" using h(3) Inl by (auto simp: no_interrupt_def)
      then show ?thesis using h Inl True by (simp add: is_Exception_def)
    next
      case False
      then have ie: "is_Exception ex" by (simp add: is_Exception_def)
      have h1: "download_with_retry cfg e t a s = (Inl ex, s1)" using h(1) Inl by simp
      show ?thesis
      proof (cases "a < max_retries cfg")
        case True
        define s3 where "s3 = s1\<lparr>rand_calls := Suc (rand_calls s1),
            trace := trace s1 @ [EvSleep (backoff_wait cfg e a (rand_calls s1))]\<rparr>"
        have "attempts cfg e t (a # ks) s = attempts cfg e t ks s3"
          unfolding s3_def by (rule attempts_backoff[OF w h1 ie a0 True])
        moreover have "cache_inv (tile_cache s3)" using h(2) by (simp add: s3_def)
        ultimately show ?thesis using Cons.IH[of s3] ks0 by simp
      next
        case F: False
        have "attempts cfg e t (a # ks) s = attempts cfg e t ks s1"
          by (rule attempts_no_backoff[OF h1 ie F])
        then show ?thesis using Cons.IH[OF h(2) ks0] by simp
      qed
    qed
  qed
qed

text \<open>
  A run of failing attempts \<open>ks\<close>: the state after them, and the trace they leave.
\<close>

lemma attempts_failing:
  assumes "downloader_inv s" and w: "waits_accepted cfg e" and ni: "no_interrupt e"
    and "\<forall>a \<in> set ks. 0 \<le> a"
    and "\<forall>i < length ks. attempt_fails e t (net_calls s + i)"
  shows "\<exists>s1. attempts cfg e t (ks @ rest) s = attempts cfg e t rest s1 \<and>
           downloader_inv s1 \<and>
           (\<forall>final. trace s @ retry_events cfg e t (rand_calls s) ks final =
                     trace s1 @ retry_events cfg e t (rand_calls s1) [] final) \<and>
           net_calls s1 = net_calls s + length ks"
  using assms(1,4,5)
proof (induction ks arbitrary: s)
  case Nil
  then show ?case by (intro exI[of _ s]) simp
next
  case (Cons a ks)
  have a0: "0 \<le> a" and ks0: "\<forall>a \<in> set ks. 0 \<le> a" using Cons.prems(2) by simp_all
  have f0: "attempt_fails e t (net_calls s)" using Cons.prems(3) by force
  from download_with_retry_run[OF Cons.prems(1) w ni, of t a] f0 obtain m s1 where
    h: "download_with_retry cfg e t a s = (Inl (DownloadError m), s1)"
       "downloader_inv s1"
       "trace s1 = trace s @ attempt_events cfg e t a (rand_calls s)"
       "net_calls s1 = Suc (net_calls s)"
       "rand_calls s1 = rand_calls s + (if a > 0 then 1 else 0)"
    by auto
  have ie: "is_Exception (DownloadError m)" by (simp add: is_Exception_def)
  have rest: "\<forall>i < length ks. attempt_fails e t (Suc (net_calls s) + i)"
    using Cons.prems(3) by force
  show ?case
  proof (cases "a < max_retries cfg")
    case True
    define s3 where "s3 = s1\<lparr>rand_calls := Suc (rand_calls s1),
        trace := trace s1 @ [EvSleep (backoff_wait cfg e a (rand_calls s1))]\<rparr>"
    have step: "attempts cfg e t ((a # ks) @ rest) s = attempts cfg e t (ks @ rest) s3"
      unfolding s3_def using attempts_backoff[OF w h(1) ie a0 True, of "ks @ rest"] by simp
    have i3: "downloader_inv s3" using h(2) by (simp add: s3_def downloader_inv_def)
    have n3: "net_calls s3 = Suc (net_calls s)" using h(4) by (simp add: s3_def)
    have r3: "rand_calls s3 = rand_calls s + (if a > 0 then 1 else 0) + 1"
      using h(5) by (simp add: s3_def)
    have t3: "trace s3 = trace s @ attempt_events cfg e t a (rand_calls s) @
        [EvSleep (backoff_wait cfg e a (rand_calls s + (if a > 0 then 1 else 0)))]"
      using h(3,5) by (simp add: s3_def)
    have f3: "\<forall>i < length ks. attempt_fails e t (net_calls s3 + i)" using rest n3 by simp
    from Cons.IH[OF i3 ks0 f3] obtain s4 where
      i: "attempts cfg e t (ks @ rest) s3 = attempts cfg e t rest s4" "downloader_inv s4"
         "\<forall>final. trace s3 @ retry_events cfg e t (rand_calls s3) ks final =
                   trace s4 @ retry_events cfg e t (rand_calls s4) [] final"
         "net_calls s4 = net_calls s3 + length ks"
      by blast
    have "\<forall>final. trace s @ retry_events cfg e t (rand_calls s) (a # ks) final =
                   trace s4 @ retry_events cfg e t (rand_calls s4) [] final"
      using i(3) True r3 t3 by simp
    then show ?thesis using step i(1,2,4) n3 by auto
  next
    case False
    have step: "attempts cfg e t ((a # ks) @ rest) s = attempts cfg e t (ks @ rest) s1"
      using attempts_no_backoff[OF h(1) ie False, of "ks @ rest"] by simp
    have f1: "\<forall>i < length ks. attempt_fails e t (net_calls s1 + i)" using rest h(4) by simp
    from Cons.IH[OF h(2) ks0 f1] obtain s4 where
      i: "attempts cfg e t (ks @ rest) s1 = attempts cfg e t rest s4" "downloader_inv s4"
         "\<forall>final. trace s1 @ retry_events cfg e t (rand_calls s1) ks final =
                   trace s4 @ retry_events cfg e t (rand_calls s4) [] final"
         "net_calls s4 = net_calls s1 + length ks"
      by blast
    have "\<forall>final. trace s @ retry_events cfg e t (rand_calls s) (a # ks) final =
                   trace s4 @ retry_events cfg e t (rand_calls s4) [] final"
      using i(3) False h(3,5) by simp
    then show ?thesis using step i(1,2,4) h(4) by auto
  qed
qed

lemma attempts_all_fail:
  assumes "downloader_inv s" and w: "waits_accepted cfg e" and ni: "no_interrupt e"
    and "\<forall>a \<in> set ks. 0 \<le> a"
    and "\<forall>i < length ks. attempt_fails e t (net_calls s + i)"
  shows "\<exists>s'. attempts cfg e t ks s =
                 (Inr (failure_result t (RetriesExhaustedMsg (max_retries cfg))), s') \<and>
           trace s' = trace s @ retry_events cfg e t (rand_calls s) ks None \<and>
           net_calls s' = net_calls s + length ks"
proof -
  from attempts_failing[OF assms, of "[]"] obtain s1 where
    h: "attempts cfg e t ks s = attempts cfg e t [] s1"
       "\<forall>final. trace s @ retry_events cfg e t (rand_calls s) ks final =
                 trace s1 @ retry_events cfg e t (rand_calls s1) [] final"
       "net_calls s1 = net_calls s + length ks"
    by auto
  from h(2) have "trace s @ retry_events cfg e t (rand_calls s) ks None = trace s1"
    using spec[OF h(2), of None] by simp
  then show ?thesis using h(1,3) by simp
qed

lemma attempts_then_success:
  assumes "downloader_inv s" and w: "waits_accepted cfg e" and ni: "no_interrupt e"
    and "\<forall>a \<in> set ks. 0 \<le> a"
    and "\<forall>i < length ks. attempt_fails e t (net_calls s + i)"
    and ok: "\<not> attempt_fails e t (net_calls s + length ks)"
  shows "\<exists>res s'. attempts cfg e t (ks @ k # rest) s = (Inr res, s') \<and>
           success res \<and> result_tile res = t \<and>
           trace s' = trace s @ retry_events cfg e t (rand_calls s) ks (Some k) \<and>
           net_calls s' = net_calls s + length ks + 1"
proof -
  from attempts_failing[OF assms(1-5), of "k # rest"] obtain s1 where
    h: "attempts cfg e t (ks @ k # rest) s = attempts cfg e t (k # rest) s1"
       "downloader_inv s1"
       "\<forall>final. trace s @ retry_events cfg e t (rand_calls s) ks final =
                 trace s1 @ retry_events cfg e t (rand_calls s1) [] final"
       "net_calls s1 = net_calls s + length ks"
    by auto
  have nf: "\<not> attempt_fails e t (net_calls s1)" using ok h(4) by simp
  from download_with_retry_run[OF h(2) w ni, of t k] nf obtain res s2 where
    d: "download_with_retry cfg e t k s1 = (Inr res, s2)"
       "trace s2 = trace s1 @ attempt_events cfg e t k (rand_calls s1)"
       "net_calls s2 = Suc (net_calls s1)" "success res" "result_tile res = t"
    by auto
  have "trace s @ retry_events cfg e t (rand_calls s) ks (Some k) =
        trace s1 @ attempt_events cfg e t k (rand_calls s1)"
    using spec[OF h(3), of "Some k"] by simp
  then show ?thesis using h(1,4) d by simp
qed

text \<open>The number of requests: each statement leaves the counter alone or adds one.\<close>

lemma sleep_net: "net_calls (snd (sleep e d s)) = net_calls s"
  by (simp add: sleep_def split: option.splits)

lemma add_random_delay_net: "net_calls (snd (add_random_delay cfg e s)) = net_calls s"
  by (simp add: add_random_delay_def random_uniform_def sleep_def split: option.splits)

lemma save_tile_net: "net_calls (snd (save_tile e t img s)) = net_calls s"
  by (simp add: save_tile_def Let_def split: prod.splits sum.splits)

lemma handle_response_net: "net_calls (snd (handle_response e t st ct len dec s)) = net_calls s"
proof (cases dec)
  case None
  then show ?thesis by (simp add: handle_response_def)
next
  case (Some img)
  then show ?thesis
    using save_tile_net[of e t img s]
    by (cases "save_tile e t img s") (auto simp: handle_response_def split: sum.splits)
qed

lemma download_with_retry_net:
  "net_calls (snd (download_with_retry cfg e t a s)) \<le> Suc (net_calls s)"
proof -
  obtain d s1 where d: "(if a > 0 then add_random_delay cfg e s else (Inr (), s)) = (d, s1)"
    by (cases "if a > 0 then add_random_delay cfg e s else (Inr (), s)")
  have n1: "net_calls s1 = net_calls s"
    using d add_random_delay_net[of cfg e s] by (auto split: if_splits)
  have "net_calls (snd (try_download cfg e t a s)) \<le> Suc (net_calls s)"
  proof (cases d)
    case (Inl ex)
    then show ?thesis using d n1 by (simp add: try_download_def)
  next
    case (Inr u)
    then show ?thesis using d n1
      by (cases "net e (net_calls s1) (url t)")
         (simp_all add: try_download_def Let_def handle_response_net)
  qed
  then show ?thesis
    by (cases "try_download cfg e t a s") (auto simp: download_with_retry_def split: sum.splits)
qed

text \<open>The handler of a failed attempt makes no request.\<close>

lemma handler_net:
  assumes "download_with_retry cfg e t a s = (Inl ex, s1)" "is_Exception ex"
  shows "(\<exists>s3. net_calls s3 = net_calls s1 \<and>
               attempts cfg e t (a # ks) s = attempts cfg e t ks s3) \<or>
         net_calls (snd (attempts cfg e t (a # ks) s)) = net_calls s1"
proof (cases "a < max_retries cfg")
  case False
  then show ?thesis using assms by auto
next
  case True
  show ?thesis
  proof (cases "pow_error e (backoff_base cfg) a")
    case (Some ex')
    then show ?thesis using assms True by simp
  next
    case None
    define s2 where "s2 = s1\<lparr>rand_calls := Suc (rand_calls s1)\<rparr>"
    define rw where "rw = uniform e (rand_calls s1) (retry_wait_range cfg)"
    define bt where "bt = float_pow e (backoff_base cfg) a"
    show ?thesis
    proof (cases "uniform_error e (rand_calls s1) (retry_wait_range cfg)")
      case (Some ex')
      then have "attempts cfg e t (a # ks) s = (Inl ex', s2)"
        using assms True None by (simp add: random_uniform_def Let_def s2_def)
      then show ?thesis by (simp add: s2_def)
    next
      case U: None
      show ?thesis
      proof (cases "add_error e bt rw")
        case (Some ex')
        then have "attempts cfg e t (a # ks) s = (Inl ex', s2)"
          using assms True None U
          by (simp add: random_uniform_def Let_def bt_def rw_def s2_def)
        then show ?thesis by (simp add: s2_def)
      next
        case N: None
        obtain q s3 where sl: "sleep e (float_add e bt rw) s2 = (q, s3)"
          by (cases "sleep e (float_add e bt rw) s2")
        have n3: "net_calls s3 = net_calls s1"
          using sleep_net[of e "float_add e bt rw" s2] sl by (simp add: s2_def)
        show ?thesis
        proof (cases q)
          case (Inl ex')
          then have "attempts cfg e t (a # ks) s = (Inl ex', s3)"
            using assms True None U N sl
            by (simp add: random_uniform_def Let_def bt_def rw_def s2_def)
          then show ?thesis using n3 by simp
        next
          case (Inr u)
          then have "attempts cfg e t (a # ks) s = attempts cfg e t ks s3"
            using assms True None U N sl
            by (simp add: random_uniform_def Let_def bt_def rw_def s2_def)
          then show ?thesis using n3 by blast
        qed
      qed
    qed
  qed
qed

lemma attempts_net:
  "net_calls (snd (attempts cfg e t ks s)) \<le> net_calls s + length ks"
proof (induction ks arbitrary: s)
  case Nil
  then show ?case by simp
next
  case (Cons a ks)
  obtain r s1 where h: "download_with_retry cfg e t a s = (r, s1)"
    by (cases "download_with_retry cfg e t a s")
  have n1: "net_calls s1 \<le> Suc (net_calls s)"
    using download_with_retry_net[of cfg e t a s] h by simp
  show ?case
  proof (cases r)
    case (Inr res)
    then show ?thesis using h n1 Cons.IH[of s1] by (cases "success res") auto
  next
    case (Inl ex)
    show ?thesis
    proof (cases "is_Exception ex")
      case False
      then show ?thesis using h Inl n1 by simp
    next
      case True
      from handler_net[OF h[unfolded Inl] True, of ks]
      show ?thesis
      proof
        assume "\<exists>s3. net_calls s3 = net_calls s1 \<and>
                     attempts cfg e t (a # ks) s = attempts cfg e t ks s3"
        then obtain s3 where s3: "net_calls s3 = net_calls s1"
          "attempts cfg e t (a # ks) s = attempts cfg e t ks s3" by blast
        then show ?thesis using Cons.IH[of s3] n1 by simp
      next
        assume "net_calls (snd (attempts cfg e t (a # ks) s)) = net_calls s1"
        then show ?thesis using n1 by simp
      qed
    qed
  qed
qed

lemma load_cached_tile_net: "net_calls (snd (load_cached_tile t s)) = net_calls s"
  by (simp add: load_cached_tile_def split: prod.splits sum.splits option.splits)

lemma download_tile_net:
  "net_calls (snd (download_tile cfg e t s)) \<le> net_calls s + nat (max_retries cfg + 1)"
proof -
  obtain r s1 where l: "load_cached_tile t s = (r, s1)" by (cases "load_cached_tile t s")
  have n1: "net_calls s1 = net_calls s" using load_cached_tile_net[of t s] l by simp
  have "net_calls (snd (attempts cfg e t [0..max_retries cfg] s1))
          \<le> net_calls s + nat (max_retries cfg + 1)"
    using attempts_net[of cfg e t "[0..max_retries cfg]" s1] n1 by simp
  then show ?thesis using l n1
    by (auto simp: download_tile_def split: sum.splits option.splits)
qed

lemma load_cached_tile_world: "same_world s (snd (load_cached_tile t s))"
  by (simp add: load_cached_tile_def same_world_def split: prod.splits sum.splits option.splits)

lemma validate_tile_coordinates_iff:
  "validate_tile_coordinates x y z \<longleftrightarrow>
     0 \<le> z \<and> z \<le> 20 \<and> 0 \<le> x \<and> x < 2 ^ nat z \<and> 0 \<le> y \<and> y < 2 ^ nat z"
  by (auto simp: validate_tile_coordinates_def Let_def)

text \<open>
  C3, amended. \<open>download_tile\<close> consults the tile cache before it validates. For a coordinate
  with \<open>z\<close> outside \<open>[0, 20]\<close> or \<open>x\<close> or \<open>y\<close> outside \<open>[0, 2^z)\<close> it makes no request, no
  retry and no sleep, and ends in the state the cache lookup left: when the lookup (memory,
  then disk) misses it returns the invalid-coordinate failure at once, and when the lookup
  hits it returns the cached image as a success.
\<close>

theorem download_tile_invalid_coordinate:
  assumes "tile_z t < 0 \<or> 20 < tile_z t \<or> tile_x t < 0 \<or> 2 ^ nat (tile_z t) \<le> tile_x t \<or>
           tile_y t < 0 \<or> 2 ^ nat (tile_z t) \<le> tile_y t"
  shows "(load_cached_tile t s = (Inr None, s1) \<longrightarrow>
            download_tile cfg e t s =
              (Inr (failure_result t (InvalidCoordMsg (tile_x t) (tile_y t) (tile_z t))), s1)) \<and>
         (load_cached_tile t sh = (Inr (Some img), sh1) \<longrightarrow>
            download_tile cfg e t sh = (Inr (success_result t img 0 True), sh1)) \<and>
         snd (download_tile cfg e t s) = snd (load_cached_tile t s) \<and>
         trace (snd (download_tile cfg e t s)) = trace s \<and>
         net_calls (snd (download_tile cfg e t s)) = net_calls s \<and>
         rand_calls (snd (download_tile cfg e t s)) = rand_calls s"
proof -
  have inv: "\<not> validate_tile_coordinates (tile_x t) (tile_y t) (tile_z t)"
    using assms by (auto simp: validate_tile_coordinates_iff)
  have s: "snd (download_tile cfg e t s) = snd (load_cached_tile t s)"
    using inv by (simp add: download_tile_def split: prod.splits sum.splits option.splits)
  show ?thesis
    using inv s load_cached_tile_world[of s t]
    by (simp add: download_tile_def same_world_def)
qed

lemma upto_nonneg: "\<forall>a \<in> set [0..m]. (0::int) \<le> a"
  by simp

lemma download_tile_ok:
  assumes inv: "cache_inv (tile_cache s)" and w: "waits_accepted cfg e"
  shows "\<exists>r s'. download_tile cfg e t s = (r, s') \<and> cache_inv (tile_cache s') \<and>
           ((\<exists>res. r = Inr res \<and> result_tile res = t) \<or>
            (r = Inl KeyboardInterrupt \<and> \<not> no_interrupt e))"
proof -
  from load_cached_tile_ok[OF inv, of t] obtain r s1 where
    l: "load_cached_tile t s = (Inr r, s1)" "cache_inv (tile_cache s1)" by blast
  show ?thesis
  proof (cases r)
    case (Some img)
    then show ?thesis using l by (simp add: download_tile_def success_result_def)
  next
    case None
    show ?thesis
    proof (cases "validate_tile_coordinates (tile_x t) (tile_y t) (tile_z t)")
      case False
      then show ?thesis using l None by (simp add: download_tile_def failure_result_def)
    next
      case True
      then have "download_tile cfg e t s = attempts cfg e t [0..max_retries cfg] s1"
        using l None by (simp add: download_tile_def)
      then show ?thesis
        using attempts_ok[OF l(2) w upto_nonneg, of t "max_retries cfg"] by simp
    qed
  qed
qed

lemma upto_split_at:
  assumes "int j \<le> m"
  shows "[0..m] = [0..int j - 1] @ int j # [int j + 1..m]"
proof -
  have "[0..m] = [0..int j - 1] @ [int j..m]"
    using upto_split1[of 0 "int j" m] assms by simp
  then show ?thesis using assms by (simp add: upto_rec1)
qed

text \<open>
  C5, amended. Take a valid coordinate that the cache lookup misses, a downloader whose
  cache is within its capacity, waits that Python computes and \<open>time.sleep\<close> completes, and no
  user interrupt. \<open>download_tile\<close> makes at most \<open>max_retries + 1\<close> requests. Let the first
  \<open>j\<close> attempts fail, and let attempt \<open>j\<close>, if there is one (\<open>j \<le> max_retries\<close>), not fail. Then
  \<open>download_tile\<close> returns a result, it has made \<open>j\<close> requests and the successful one, and the
  trace it has added is \<open>retry_events\<close>: after each failed attempt \<open>k\<close> that is not the last
  one allowed, a sleep of \<open>backoff_base ** k\<close> plus the draw from \<open>retry_wait_range\<close>, and
  before each attempt but the first the random inter-request delay. When attempt \<open>j\<close>
  succeeds the result is successful; when all \<open>max_retries + 1\<close> attempts have failed it is
  the failure result whose error is the fixed message "failed after \<open>max_retries\<close> retries":
  the error of the last attempt is only logged.
\<close>

theorem download_tile_retries:
  assumes valid: "validate_tile_coordinates (tile_x t) (tile_y t) (tile_z t)"
    and miss: "fst (load_cached_tile t s) = Inr None"
    and inv: "downloader_inv s" and w: "waits_accepted cfg e" and ni: "no_interrupt e"
    and j: "j \<le> nat (max_retries cfg + 1)"
    and fails: "\<forall>i < j. attempt_fails e t (net_calls s + i)"
    and ok: "j < nat (max_retries cfg + 1) \<longrightarrow> \<not> attempt_fails e t (net_calls s + j)"
  shows "net_calls (snd (download_tile cfg e t s)) \<le> net_calls s + nat (max_retries cfg + 1) \<and>
         (\<exists>res s'. download_tile cfg e t s = (Inr res, s') \<and>
            trace s' = trace s @
              retry_events cfg e t (rand_calls s) [0..int j - 1]
                (if j < nat (max_retries cfg + 1) then Some (int j) else None) \<and>
            (if j < nat (max_retries cfg + 1)
             then success res \<and> result_tile res = t \<and> net_calls s' = net_calls s + j + 1
             else res = failure_result t (RetriesExhaustedMsg (max_retries cfg)) \<and>
                  net_calls s' = net_calls s + j))"
proof (rule conjI)
  show "net_calls (snd (download_tile cfg e t s)) \<le> net_calls s + nat (max_retries cfg + 1)"
    by (rule download_tile_net)
next
  obtain s1 where l: "load_cached_tile t s = (Inr None, s1)"
    using miss by (cases "load_cached_tile t s") simp
  have i1: "downloader_inv s1" using load_cached_tile_inv[OF inv, of t] l by simp
  have w1: "same_world s s1" using load_cached_tile_world[of s t] l by simp
  have d: "download_tile cfg e t s = attempts cfg e t [0..max_retries cfg] s1"
    using l valid by (simp add: download_tile_def)
  have len: "length [0..int j - 1] = j" by simp
  have nn: "\<forall>a \<in> set [0..int j - 1]. 0 \<le> a" by simp
  have f1: "\<forall>i < length [0..int j - 1]. attempt_fails e t (net_calls s1 + i)"
    using fails w1 by (simp add: same_world_def)
  show "\<exists>res s'. download_tile cfg e t s = (Inr res, s') \<and>
            trace s' = trace s @
              retry_events cfg e t (rand_calls s) [0..int j - 1]
                (if j < nat (max_retries cfg + 1) then Some (int j) else None) \<and>
            (if j < nat (max_retries cfg + 1)
             then success res \<and> result_tile res = t \<and> net_calls s' = net_calls s + j + 1
             else res = failure_result t (RetriesExhaustedMsg (max_retries cfg)) \<and>
                  net_calls s' = net_calls s + j)"
  proof (cases "j < nat (max_retries cfg + 1)")
    case True
    then have jm: "int j \<le> max_retries cfg" by simp
    have sp: "[0..max_retries cfg] = [0..int j - 1] @ int j # [int j + 1..max_retries cfg]"
      by (rule upto_split_at[OF jm])
    have nf: "\<not> attempt_fails e t (net_calls s1 + length [0..int j - 1])"
      using ok True w1 by (simp add: same_world_def)
    from attempts_then_success[OF i1 w ni nn f1 nf, of "int j" "[int j + 1..max_retries cfg]"]
    show ?thesis using d sp True w1 by (auto simp: same_world_def)
  next
    case False
    then have jN: "j = nat (max_retries cfg + 1)" using j by simp
    have sp: "[0..max_retries cfg] = [0..int j - 1]"
    proof (cases "0 \<le> max_retries cfg + 1")
      case True
      then show ?thesis using jN by simp
    next
      case F: False
      then show ?thesis using jN by simp
    qed
    from attempts_all_fail[OF i1 w ni nn f1]
    show ?thesis using d sp False w1 by (auto simp: same_world_def)
  qed
qed

text \<open>The batch loop: its results extend the results it was given.\<close>

lemma download_loop_extends:
  "\<exists>more. fst (download_loop cfg e total_tiles i tiles results s) = results @ more"
proof (induction tiles arbitrary: i results s)
  case Nil
  then show ?case by simp
next
  case (Cons t rest)
  obtain r s1 where d: "download_tile cfg e t s = (r, s1)"
    by (cases "download_tile cfg e t s")
  obtain q s2 where a: "add_random_delay cfg e s1 = (q, s2)"
    by (cases "add_random_delay cfg e s1")
  have ih: "\<exists>more. fst (download_loop cfg e total_tiles (i + 1) rest (results @ xs) s') =
                    results @ more" for xs s'
  proof -
    from Cons.IH[of "i + 1" "results @ xs" s'] obtain more where
      "fst (download_loop cfg e total_tiles (i + 1) rest (results @ xs) s') =
         (results @ xs) @ more" by blast
    then show ?thesis by simp
  qed
  show ?case
  proof (cases r)
    case (Inl ex)
    then show ?thesis using d ih[of "[failure_result t (str_exn ex)]" s1] by simp
  next
    case (Inr res)
    show ?thesis
    proof (cases "i < total_tiles")
      case False
      then show ?thesis using d Inr ih[of "[res]" s1] by simp
    next
      case True
      show ?thesis
      proof (cases q)
        case I: (Inl ex)
        then show ?thesis
          using d Inr True a ih[of "[res, failure_result t (str_exn ex)]" s2] by simp
      next
        case R: (Inr u)
        then show ?thesis using d Inr True a ih[of "[res]" s2] by simp
      qed
    qed
  qed
qed

text \<open>One turn of the batch loop, under the invariant and with accepted waits.\<close>

lemma download_loop_turn:
  assumes inv: "cache_inv (tile_cache s)" and w: "waits_accepted cfg e"
  shows "(\<exists>s1. download_tile cfg e t s = (Inl KeyboardInterrupt, s1) \<and> \<not> no_interrupt e \<and>
               download_loop cfg e total_tiles i (t # rest) results s = (results, s1)) \<or>
         (\<exists>res s1 s2. download_tile cfg e t s = (Inr res, s1) \<and> result_tile res = t \<and>
               cache_inv (tile_cache s2) \<and>
               (if i < total_tiles then add_random_delay cfg e s1 = (Inr (), s2) else s2 = s1) \<and>
               download_loop cfg e total_tiles i (t # rest) results s =
                 download_loop cfg e total_tiles (i + 1) rest (results @ [res]) s2)"
proof -
  from download_tile_ok[OF inv w, of t] obtain r s1 where
    d: "download_tile cfg e t s = (r, s1)" "cache_inv (tile_cache s1)"
       "(\<exists>res. r = Inr res \<and> result_tile res = t) \<or> (r = Inl KeyboardInterrupt \<and> \<not> no_interrupt e)"
    by blast
  from d(3) show ?thesis
  proof
    assume "r = Inl KeyboardInterrupt \<and> \<not> no_interrupt e"
    then show ?thesis using d(1) by simp
  next
    assume "\<exists>res. r = Inr res \<and> result_tile res = t"
    then obtain res where res: "r = Inr res" "result_tile res = t" by blast
    define s2 where "s2 = (if i < total_tiles then s1\<lparr>rand_calls := Suc (rand_calls s1),
        trace := trace s1 @ [EvSleep (uniform e (rand_calls s1) (request_interval_range cfg))]\<rparr>
        else s1)"
    have a: "if i < total_tiles then add_random_delay cfg e s1 = (Inr (), s2) else s2 = s1"
      by (simp add: add_random_delay_ok[OF w] s2_def)
    have step: "download_loop cfg e total_tiles i (t # rest) results s =
                download_loop cfg e total_tiles (i + 1) rest (results @ [res]) s2"
      using d(1) res by (simp add: add_random_delay_ok[OF w] s2_def)
    have "cache_inv (tile_cache s2)" using d(2) by (simp add: s2_def)
    then show ?thesis using d(1) res a step by blast
  qed
qed

lemma download_loop_ok:
  assumes "cache_inv (tile_cache s)" and w: "waits_accepted cfg e"
  shows "\<exists>k \<le> length tiles.
           map result_tile (fst (download_loop cfg e total_tiles i tiles results s)) =
             map result_tile results @ take k tiles \<and>
           (no_interrupt e \<longrightarrow> k = length tiles)"
  using assms(1)
proof (induction tiles arbitrary: i results s)
  case Nil
  then show ?case by simp
next
  case (Cons t rest)
  from download_loop_turn[OF Cons.prems w, of t total_tiles i rest results] show ?case
  proof
    assume "\<exists>s1. download_tile cfg e t s = (Inl KeyboardInterrupt, s1) \<and> \<not> no_interrupt e \<and>
               download_loop cfg e total_tiles i (t # rest) results s = (results, s1)"
    then have "map result_tile (fst (download_loop cfg e total_tiles i (t # rest) results s)) =
                 map result_tile results @ take 0 (t # rest) \<and>
               (no_interrupt e \<longrightarrow> 0 = length (t # rest))"
      by auto
    then show ?thesis by blast
  next
    assume "\<exists>res s1 s2. download_tile cfg e t s = (Inr res, s1) \<and> result_tile res = t \<and>
               cache_inv (tile_cache s2) \<and>
               (if i < total_tiles then add_random_delay cfg e s1 = (Inr (), s2) else s2 = s1) \<and>
               download_loop cfg e total_tiles i (t # rest) results s =
                 download_loop cfg e total_tiles (i + 1) rest (results @ [res]) s2"
    then obtain res s2 where
      res: "result_tile res = t" "cache_inv (tile_cache s2)"
        "download_loop cfg e total_tiles i (t # rest) results s =
                 download_loop cfg e total_tiles (i + 1) rest (results @ [res]) s2"
      by blast
    from Cons.IH[OF res(2), of "i + 1" "results @ [res]"] obtain k where
      k: "k \<le> length rest"
         "map result_tile (fst (download_loop cfg e total_tiles (i + 1) rest (results @ [res]) s2)) =
            map result_tile (results @ [res]) @ take k rest"
         "no_interrupt e \<longrightarrow> k = length rest"
      by blast
    have "Suc k \<le> length (t # rest) \<and>
          map result_tile (fst (download_loop cfg e total_tiles i (t # rest) results s)) =
             map result_tile results @ take (Suc k) (t # rest) \<and>
          (no_interrupt e \<longrightarrow> Suc k = length (t # rest))"
      using k res by simp
    then show ?thesis by blast
  qed
qed

text \<open>
  A run of the batch loop over \<open>pre\<close> that was not interrupted has added one result per
  tile; the loop over \<open>pre @ rest\<close> then goes on over \<open>rest\<close> from where that run ended.
\<close>

lemma download_loop_append:
  assumes "cache_inv (tile_cache s)" and w: "waits_accepted cfg e"
    and "download_loop cfg e total_tiles i pre results s = (rs, s1)"
    and "length rs = length results + length pre"
  shows "cache_inv (tile_cache s1) \<and>
         download_loop cfg e total_tiles i (pre @ rest) results s =
           download_loop cfg e total_tiles (i + int (length pre)) rest rs s1"
  using assms(1,3,4)
proof (induction pre arbitrary: i results s)
  case Nil
  then show ?case by simp
next
  case (Cons t pre)
  from download_loop_turn[OF Cons.prems(1) w, of t total_tiles i] have
    "(\<exists>sa. download_loop cfg e total_tiles i (t # pre) results s = (results, sa)) \<or>
     (\<exists>res s2. cache_inv (tile_cache s2) \<and>
        (\<forall>tl. download_loop cfg e total_tiles i (t # tl) results s =
                download_loop cfg e total_tiles (i + 1) tl (results @ [res]) s2))"
  proof -
    have "(\<exists>s1. download_tile cfg e t s = (Inl KeyboardInterrupt, s1)) \<or>
          (\<exists>res s1 s2. download_tile cfg e t s = (Inr res, s1) \<and> cache_inv (tile_cache s2) \<and>
             (if i < total_tiles then add_random_delay cfg e s1 = (Inr (), s2) else s2 = s1))"
      using download_loop_turn[OF Cons.prems(1) w, of t total_tiles i "[]" "[]"] by blast
    then show ?thesis
    proof
      assume "\<exists>s1. download_tile cfg e t s = (Inl KeyboardInterrupt, s1)"
      then show ?thesis by auto
    next
      assume "\<exists>res s1 s2. download_tile cfg e t s = (Inr res, s1) \<and> cache_inv (tile_cache s2) \<and>
             (if i < total_tiles then add_random_delay cfg e s1 = (Inr (), s2) else s2 = s1)"
      then obtain res sa s2 where
        h: "download_tile cfg e t s = (Inr res, sa)" "cache_inv (tile_cache s2)"
           "if i < total_tiles then add_random_delay cfg e sa = (Inr (), s2) else s2 = sa"
        by blast
      have "\<forall>tl. download_loop cfg e total_tiles i (t # tl) results s =
                download_loop cfg e total_tiles (i + 1) tl (results @ [res]) s2"
        using h(1,3) by (auto split: if_splits)
      then show ?thesis using h(2) by blast
    qed
  qed
  then show ?case
  proof
    assume "\<exists>sa. download_loop cfg e total_tiles i (t # pre) results s = (results, sa)"
    then have "rs = results" using Cons.prems(2) by auto
    then show ?thesis using Cons.prems(3) by simp
  next
    assume "\<exists>res s2. cache_inv (tile_cache s2) \<and>
        (\<forall>tl. download_loop cfg e total_tiles i (t # tl) results s =
                download_loop cfg e total_tiles (i + 1) tl (results @ [res]) s2)"
    then obtain res s2 where
      h: "cache_inv (tile_cache s2)"
         "\<forall>tl. download_loop cfg e total_tiles i (t # tl) results s =
                download_loop cfg e total_tiles (i + 1) tl (results @ [res]) s2"
      by blast
    have r1: "download_loop cfg e total_tiles (i + 1) pre (results @ [res]) s2 = (rs, s1)"
      using spec[OF h(2), of pre] Cons.prems(2) by simp
    have l1: "length rs = length (results @ [res]) + length pre" using Cons.prems(3) by simp
    from Cons.IH[OF h(1) r1 l1] have
      ih: "cache_inv (tile_cache s1)"
      "download_loop cfg e total_tiles (i + 1) (pre @ rest) (results @ [res]) s2 =
         download_loop cfg e total_tiles (i + 1 + int (length pre)) rest rs s1"
      by simp_all
    have e1: "download_loop cfg e total_tiles i ((t # pre) @ rest) results s =
              download_loop cfg e total_tiles (i + 1) (pre @ rest) (results @ [res]) s2"
      unfolding append_Cons by (rule spec[OF h(2)])
    have e2: "i + 1 + int (length pre) = i + int (length (t # pre))" by simp
    have "download_loop cfg e total_tiles i ((t # pre) @ rest) results s =
          download_loop cfg e total_tiles (i + int (length (t # pre))) rest rs s1"
      using trans[OF e1 ih(2)] unfolding e2 .
    then show ?thesis using ih(1) by (rule conjI[rotated])
  qed
qed

text \<open>
  C7, amended. With a cache satisfying its invariant and waits that Python computes and
  \<open>time.sleep\<close> completes:
  \<^item> \<open>download_tile\<close> returns a \<open>DownloadResult\<close> for its tile or lets a \<open>KeyboardInterrupt\<close>
    through, and no other exception; if no request is interrupted by the user it returns a
    result, and \<open>download_tiles\<close> returns exactly one result per tile, in the order of the
    list, whichever tiles failed;
  \<^item> in any case \<open>download_tiles\<close> returns results for an initial part of the list;
  \<^item> when the batch loop has gone through the tiles \<open>pre\<close> without an interrupt, with the
    results \<open>rs\<close>, and the download of the next tile is interrupted, \<open>download_tiles\<close> returns
    exactly \<open>rs\<close>; and when the download of the next tile returns a result, failed or not,
    the results of \<open>download_tiles\<close> begin with \<open>rs\<close> followed by that result.
\<close>

theorem download_never_raises:
  assumes inv: "cache_inv (tile_cache s)" and w: "waits_accepted cfg e"
  shows "((\<exists>res s'. download_tile cfg e t s = (Inr res, s') \<and> result_tile res = t) \<or>
          (\<exists>s'. download_tile cfg e t s = (Inl KeyboardInterrupt, s'))) \<and>
         (no_interrupt e \<longrightarrow>
            (\<exists>res s'. download_tile cfg e t s = (Inr res, s') \<and> result_tile res = t) \<and>
            map result_tile (fst (download_tiles cfg e tiles s)) = tiles) \<and>
         (\<exists>k \<le> length tiles. map result_tile (fst (download_tiles cfg e tiles s)) = take k tiles) \<and>
         (tiles = pre @ u # post \<and>
          download_loop cfg e (int (length tiles)) 1 pre []
            (s\<lparr>total_downloads := total_downloads s + int (length tiles)\<rparr>) = (rs, s1) \<and>
          length rs = length pre \<longrightarrow>
            (download_tile cfg e u s1 = (Inl KeyboardInterrupt, s2) \<longrightarrow>
               download_tiles cfg e tiles s = (rs, s2)) \<and>
            (download_tile cfg e u s1 = (Inr r, s3) \<longrightarrow>
               take (Suc (length pre)) (fst (download_tiles cfg e tiles s)) = rs @ [r]))"
proof -
  let ?s0 = "s\<lparr>total_downloads := total_downloads s + int (length tiles)\<rparr>"
  have i0: "cache_inv (tile_cache ?s0)" using inv by simp
  from download_loop_ok[OF i0 w, of tiles "int (length tiles)" 1 "[]"] obtain k where
    k: "k \<le> length tiles"
       "map result_tile (fst (download_tiles cfg e tiles s)) = take k tiles"
       "no_interrupt e \<longrightarrow> k = length tiles"
    by (auto simp: download_tiles_def Let_def)
  have o: "(\<exists>res s'. download_tile cfg e t s = (Inr res, s') \<and> result_tile res = t) \<or>
           (\<exists>s'. download_tile cfg e t s = (Inl KeyboardInterrupt, s'))"
    using download_tile_ok[OF inv w, of t] by auto
  have a: "\<exists>res s'. download_tile cfg e t s = (Inr res, s') \<and> result_tile res = t"
    if "no_interrupt e"
    using download_tile_ok[OF inv w, of t] that by auto
  have b: "map result_tile (fst (download_tiles cfg e tiles s)) = tiles" if "no_interrupt e"
    using k that by simp
  have c: "(download_tile cfg e u s1 = (Inl KeyboardInterrupt, s2) \<longrightarrow>
               download_tiles cfg e tiles s = (rs, s2)) \<and>
           (download_tile cfg e u s1 = (Inr r, s3) \<longrightarrow>
               take (Suc (length pre)) (fst (download_tiles cfg e tiles s)) = rs @ [r])"
    if p: "tiles = pre @ u # post"
      "download_loop cfg e (int (length tiles)) 1 pre [] ?s0 = (rs, s1)"
      "length rs = length pre"
  proof -
    have l: "length rs = length ([]::download_result list) + length pre" using p(3) by simp
    from download_loop_append[OF i0 w p(2) l, of "u # post"] have
      i1: "cache_inv (tile_cache s1)" and
      ap: "download_tiles cfg e tiles s =
             download_loop cfg e (int (length tiles)) (1 + int (length pre)) (u # post) rs s1"
      using p(1) by (simp_all add: download_tiles_def Let_def)
    have c1: "download_tiles cfg e tiles s = (rs, s2)"
      if "download_tile cfg e u s1 = (Inl KeyboardInterrupt, s2)"
      using ap that by simp
    have c2: "take (Suc (length pre)) (fst (download_tiles cfg e tiles s)) = rs @ [r]"
      if d: "download_tile cfg e u s1 = (Inr r, s3)"
    proof -
      from download_loop_turn[OF i1 w, of u "int (length tiles)" "1 + int (length pre)" post rs]
        d obtain s4 where
        "download_loop cfg e (int (length tiles)) (1 + int (length pre)) (u # post) rs s1 =
           download_loop cfg e (int (length tiles)) (1 + int (length pre) + 1) post (rs @ [r]) s4"
        by auto
      moreover from download_loop_extends[of cfg e "int (length tiles)"
          "1 + int (length pre) + 1" post "rs @ [r]" s4] obtain more where
        "fst (download_loop cfg e (int (length tiles)) (1 + int (length pre) + 1) post
                (rs @ [r]) s4) = (rs @ [r]) @ more"
        by blast
      ultimately have "fst (download_tiles cfg e tiles s) = (rs @ [r]) @ more" using ap by simp
      then show ?thesis using p(3) by simp
    qed
    from c1 c2 show ?thesis by blast
  qed
  from o a b k(1,2) c show ?thesis by blast
qed
section \<open>The downloader on concrete inputs\<close>

lemmas dl_defs = download_tile_def load_cached_tile_def TileCache_get_def TileCache_put_def
  BaseDownloader_init_def TileCache_init_def dict_has_def store_def tile_key_def
  validate_tile_coordinates_def success_result_def failure_result_def
  download_with_retry_def try_download_def reraise_def is_Exception_def
  add_random_delay_def random_uniform_def sleep_def Let_def
  demo_env_def cpython_sleep_def cpython_pow_error_def

lemma bad_tile_xyz: "tile_x bad_tile = 5 \<and> tile_y bad_tile = 0 \<and> tile_z bad_tile = 1"
  by (simp add: bad_tile_def create_tile_info_def)

lemma demo_tile_xyz: "tile_x demo_tile = 1 \<and> tile_y demo_tile = 1 \<and> tile_z demo_tile = 1"
  by (simp add: demo_tile_def create_tile_info_def)

text \<open>
  C3 as stated fails: the cache is consulted first. The tile \<open>(5, 0)\<close> is out of range at
  zoom 1, its file is on disk, and \<open>download_tile\<close> returns it as a success from the cache
  (and counts a cache hit) instead of a failure.
\<close>

theorem download_tile_validates_first_counterexample:
  "(2::int) ^ nat (tile_z bad_tile) \<le> tile_x bad_tile \<and>
   fst (download_tile demo_config timeout_env bad_tile (BaseDownloader_init bad_files)) =
     Inr (success_result bad_tile demo_image 0 True) \<and>
   cache_hits (snd (download_tile demo_config timeout_env bad_tile (BaseDownloader_init bad_files))) = 1"
  by (simp add: dl_defs bad_tile_xyz bad_files_def)

text \<open>
  C5 as stated fails in its last part: with one retry and every request timing out, the last
  attempt's error is the timeout, and the failure result carries the fixed message instead.
  It also fails when the configured retry wait makes the duration negative (\<open>time.sleep\<close>
  raises in place of the wait, and \<open>download_tile\<close> with it) and when the user interrupts a
  request (\<open>download_tile\<close> is left after that one attempt, with no result).
\<close>

theorem download_tile_retries_counterexample:
  "net timeout_env 1 (url demo_tile) = NetRaises (RequestsTimeout ''Read timed out.'') \<and>
   reraise (RequestsTimeout ''Read timed out.'') = DownloadError TimeoutMsg \<and>
   fst (download_tile retry_config timeout_env demo_tile (BaseDownloader_init no_files)) =
     Inr (failure_result demo_tile (RetriesExhaustedMsg 1)) \<and>
   error (failure_result demo_tile (RetriesExhaustedMsg 1)) \<noteq> Some TimeoutMsg \<and>
   trace (snd (download_tile retry_config timeout_env demo_tile (BaseDownloader_init no_files))) =
     [EvHttpGet (url demo_tile), EvSleep 7, EvSleep (1 / 10), EvHttpGet (url demo_tile)] \<and>
   download_tile negative_wait_config timeout_env demo_tile (BaseDownloader_init no_files) =
     (Inl (ValueError ''sleep length must be non-negative''),
      (BaseDownloader_init no_files)
        \<lparr>cache_misses := 1, trace := [EvHttpGet (url demo_tile)], net_calls := 1,
         rand_calls := 1\<rparr>) \<and>
   download_tile demo_config interrupt_env demo_tile (BaseDownloader_init no_files) =
     (Inl KeyboardInterrupt,
      (BaseDownloader_init no_files)
        \<lparr>cache_misses := 1, trace := [EvHttpGet (url demo_tile)], net_calls := 1\<rparr>)"
  by (simp add: dl_defs demo_tile_xyz no_files_def timeout_env_def retry_config_def
      interrupt_env_def negative_wait_config_def demo_config_def upto.simps)

text \<open>
  C7 as stated fails for \<open>download_tile\<close>: a \<open>KeyboardInterrupt\<close> during the request leaves
  it; so does the \<open>ValueError\<close> of \<open>time.sleep\<close> when the configured retry wait makes the
  duration negative; and so does its \<open>OverflowError\<close> when the backoff base is \<open>10 ^ 10\<close>,
  non-negative but beyond what the clock takes, after the second failed attempt. With a
  negative inter-request delay, \<open>download_tiles\<close> appends a second result, carrying the
  message of the \<open>ValueError\<close>, for a tile whose result it has already appended: three
  results for two tiles.
\<close>

theorem download_never_raises_counterexample:
  "fst (download_tile demo_config interrupt_env demo_tile (BaseDownloader_init no_files)) =
     Inl KeyboardInterrupt \<and>
   fst (download_tile negative_wait_config timeout_env demo_tile (BaseDownloader_init no_files)) =
     Inl (ValueError ''sleep length must be non-negative'') \<and>
   download_tile huge_backoff_config timeout_env demo_tile (BaseDownloader_init no_files) =
     (Inl (OverflowError ''timestamp out of range for platform time_t''),
      (BaseDownloader_init no_files)
        \<lparr>cache_misses := 1,
         trace := [EvHttpGet (url demo_tile), EvSleep 7, EvSleep (1 / 10),
                   EvHttpGet (url demo_tile)],
         net_calls := 2, rand_calls := 3\<rparr>) \<and>
   fst (download_tiles negative_interval_config timeout_env [bad_tile, bad_tile]
          (BaseDownloader_init no_files)) =
     [failure_result bad_tile (InvalidCoordMsg 5 0 1),
      failure_result bad_tile (ExcText ''sleep length must be non-negative''),
      failure_result bad_tile (InvalidCoordMsg 5 0 1)]"
  by (simp add: dl_defs download_tiles_def bad_tile_xyz demo_tile_xyz no_files_def timeout_env_def
      interrupt_env_def negative_wait_config_def negative_interval_config_def
      huge_backoff_config_def demo_config_def upto.simps)

lemma pair_with_snd: "fst p = a \<Longrightarrow> p = (a, snd p)"
  by (cases p) simp

text \<open>C3 (amended) on the out-of-range tile \<open>(5, 0)\<close> of zoom 1, without and with its file on disk.\<close>

theorem download_tile_invalid_coordinate_witness:
  "(tile_z bad_tile < 0 \<or> 20 < tile_z bad_tile \<or> tile_x bad_tile < 0 \<or>
    2 ^ nat (tile_z bad_tile) \<le> tile_x bad_tile \<or>
    tile_y bad_tile < 0 \<or> 2 ^ nat (tile_z bad_tile) \<le> tile_y bad_tile) \<and>
   load_cached_tile bad_tile (BaseDownloader_init no_files :: real downloader) =
     (Inr None, snd (load_cached_tile bad_tile (BaseDownloader_init no_files))) \<and>
   load_cached_tile bad_tile (BaseDownloader_init bad_files :: real downloader) =
     (Inr (Some demo_image), snd (load_cached_tile bad_tile (BaseDownloader_init bad_files))) \<and>
   download_tile demo_config timeout_env bad_tile (BaseDownloader_init no_files) =
     (Inr (failure_result bad_tile
             (InvalidCoordMsg (tile_x bad_tile) (tile_y bad_tile) (tile_z bad_tile))),
      snd (load_cached_tile bad_tile (BaseDownloader_init no_files))) \<and>
   download_tile demo_config timeout_env bad_tile (BaseDownloader_init bad_files) =
     (Inr (success_result bad_tile demo_image 0 True),
      snd (load_cached_tile bad_tile (BaseDownloader_init bad_files))) \<and>
   net_calls (snd (download_tile demo_config timeout_env bad_tile (BaseDownloader_init no_files))) =
     net_calls (BaseDownloader_init no_files :: real downloader)"
proof -
  have h0: "tile_z bad_tile < 0 \<or> 20 < tile_z bad_tile \<or> tile_x bad_tile < 0 \<or>
    2 ^ nat (tile_z bad_tile) \<le> tile_x bad_tile \<or>
    tile_y bad_tile < 0 \<or> 2 ^ nat (tile_z bad_tile) \<le> tile_y bad_tile"
    by (simp add: bad_tile_xyz)
  have h1: "load_cached_tile bad_tile (BaseDownloader_init no_files) =
     (Inr None, snd (load_cached_tile bad_tile (BaseDownloader_init no_files)))"
    by (rule pair_with_snd) (simp add: dl_defs bad_tile_xyz no_files_def)
  have h2: "load_cached_tile bad_tile (BaseDownloader_init bad_files) =
     (Inr (Some demo_image), snd (load_cached_tile bad_tile (BaseDownloader_init bad_files)))"
    by (rule pair_with_snd) (simp add: dl_defs bad_tile_xyz bad_files_def)
  note t = download_tile_invalid_coordinate[OF h0, of "BaseDownloader_init no_files"
      "snd (load_cached_tile bad_tile (BaseDownloader_init no_files))" demo_config timeout_env
      "BaseDownloader_init bad_files" demo_image
      "snd (load_cached_tile bad_tile (BaseDownloader_init bad_files))"]
  note a = mp[OF conjunct1[OF t] h1]
  note b = mp[OF conjunct1[OF conjunct2[OF t]] h2]
  note c = conjunct1[OF conjunct2[OF conjunct2[OF conjunct2[OF conjunct2[OF t]]]]]
  show ?thesis
    by (rule conjI[OF h0 conjI[OF h1 conjI[OF h2 conjI[OF a conjI[OF b c]]]]])
qed

text \<open>
  The waits of \<open>retry_config\<close> (one retry, backoff base 2, retry wait from 6, delay from 0.1)
  are accepted by the demonstration environments, whatever their requests do.
\<close>

lemma retry_config_waits: "waits_accepted retry_config (demo_env requests)"
proof -
  have k0: "k = 0" if "0 \<le> k \<and> k < max_retries retry_config" for k :: int
    using that by (simp add: retry_config_def)
  show ?thesis
    unfolding waits_accepted_def
  proof (intro conjI allI impI)
    fix k :: int assume k: "0 \<le> k \<and> k < max_retries retry_config"
    show "pow_error (demo_env requests) (backoff_base retry_config) k = None"
      using k0[OF k] by (simp add: demo_env_def cpython_pow_error_def)
  next
    fix k :: int and n :: nat assume k: "0 \<le> k \<and> k < max_retries retry_config"
    show "uniform_error (demo_env requests) n (retry_wait_range retry_config) = None"
      by (simp add: demo_env_def)
  next
    fix n :: nat
    show "uniform_error (demo_env requests) n (request_interval_range retry_config) = None"
      by (simp add: demo_env_def)
  next
    fix k :: int and n :: nat assume k: "0 \<le> k \<and> k < max_retries retry_config"
    show "add_error (demo_env requests)
            (float_pow (demo_env requests) (backoff_base retry_config) k)
            (uniform (demo_env requests) n (retry_wait_range retry_config)) = None"
      by (simp add: demo_env_def)
  next
    fix k :: int and m n :: nat assume k: "0 \<le> k \<and> k < max_retries retry_config"
    show "time_sleep (demo_env requests) m
            (float_add (demo_env requests)
               (float_pow (demo_env requests) (backoff_base retry_config) k)
               (uniform (demo_env requests) n (retry_wait_range retry_config))) = None"
      using k0[OF k]
      by (simp add: demo_env_def cpython_sleep_def retry_config_def demo_config_def)
  next
    fix m n :: nat
    show "time_sleep (demo_env requests) m
            (uniform (demo_env requests) n (request_interval_range retry_config)) = None"
      by (simp add: demo_env_def cpython_sleep_def retry_config_def demo_config_def)
  qed
qed

lemma init_cache_inv: "cache_inv (tile_cache (BaseDownloader_init files))"
  by (simp add: BaseDownloader_init_def cache_inv_init)

lemma init_downloader_inv: "downloader_inv (BaseDownloader_init files)"
  by (simp add: downloader_inv_def init_cache_inv)
     (simp add: BaseDownloader_init_def TileCache_init_def size_ok_def)

text \<open>
  The traces that the retry policy prescribes with one retry: for a first attempt that fails
  and a second that succeeds, and for two attempts that fail.
\<close>

lemma retry_events_example:
  "retry_events retry_config flaky_env demo_tile 0 [0..int 1 - 1] (Some 1) =
     [EvHttpGet (url demo_tile), EvSleep 7, EvSleep (1 / 10), EvHttpGet (url demo_tile)] \<and>
   retry_events retry_config timeout_env demo_tile 0 [0..int 2 - 1] None =
     [EvHttpGet (url demo_tile), EvSleep 7, EvSleep (1 / 10), EvHttpGet (url demo_tile)]"
  by (simp add: retry_config_def demo_config_def timeout_env_def flaky_env_def demo_env_def
      attempt_events_def backoff_wait_def upto.simps)

text \<open>
  C5 (amended) with one retry: on a first request that times out and a second that returns
  an image (\<open>j = 1\<close>), and on two requests that time out (\<open>j = 2\<close>).
\<close>

theorem download_tile_retries_witness:
  "validate_tile_coordinates (tile_x demo_tile) (tile_y demo_tile) (tile_z demo_tile) \<and>
   fst (load_cached_tile demo_tile fresh_downloader) = Inr None \<and>
   downloader_inv fresh_downloader \<and>
   waits_accepted retry_config flaky_env \<and> no_interrupt flaky_env \<and>
   waits_accepted retry_config timeout_env \<and> no_interrupt timeout_env \<and>
   (1::nat) \<le> nat (max_retries retry_config + 1) \<and>
   (2::nat) \<le> nat (max_retries retry_config + 1) \<and>
   (attempt_fails flaky_env demo_tile 0 \<and> \<not> attempt_fails flaky_env demo_tile 1) \<and>
   (attempt_fails timeout_env demo_tile 0 \<and> attempt_fails timeout_env demo_tile 1) \<and>
   (net_calls (snd (download_tile retry_config flaky_env demo_tile fresh_downloader))
      \<le> net_calls fresh_downloader + nat (max_retries retry_config + 1) \<and>
    (\<exists>res s'. download_tile retry_config flaky_env demo_tile fresh_downloader =
                (Inr res, s') \<and>
       trace s' = trace fresh_downloader @
         retry_events retry_config flaky_env demo_tile (rand_calls fresh_downloader)
           [0..int 1 - 1] (if 1 < nat (max_retries retry_config + 1) then Some (int 1) else None) \<and>
       (if 1 < nat (max_retries retry_config + 1)
        then success res \<and> result_tile res = demo_tile \<and>
             net_calls s' = net_calls fresh_downloader + 1 + 1
        else res = failure_result demo_tile (RetriesExhaustedMsg (max_retries retry_config)) \<and>
             net_calls s' = net_calls fresh_downloader + 1))) \<and>
   (net_calls (snd (download_tile retry_config timeout_env demo_tile fresh_downloader))
      \<le> net_calls fresh_downloader + nat (max_retries retry_config + 1) \<and>
    (\<exists>res s'. download_tile retry_config timeout_env demo_tile fresh_downloader =
                (Inr res, s') \<and>
       trace s' = trace fresh_downloader @
         retry_events retry_config timeout_env demo_tile (rand_calls fresh_downloader)
           [0..int 2 - 1] (if 2 < nat (max_retries retry_config + 1) then Some (int 2) else None) \<and>
       (if 2 < nat (max_retries retry_config + 1)
        then success res \<and> result_tile res = demo_tile \<and>
             net_calls s' = net_calls fresh_downloader + 2 + 1
        else res = failure_result demo_tile (RetriesExhaustedMsg (max_retries retry_config)) \<and>
             net_calls s' = net_calls fresh_downloader + 2)))"
proof -
  have v: "validate_tile_coordinates (tile_x demo_tile) (tile_y demo_tile) (tile_z demo_tile)"
    by (simp add: demo_tile_xyz validate_tile_coordinates_def)
  have m: "fst (load_cached_tile demo_tile fresh_downloader) = Inr None"
    by (simp add: fresh_downloader_def dl_defs demo_tile_xyz no_files_def)
  have i: "downloader_inv fresh_downloader"
    unfolding fresh_downloader_def by (rule init_downloader_inv)
  have wf: "waits_accepted retry_config flaky_env"
    unfolding flaky_env_def by (rule retry_config_waits)
  have wt: "waits_accepted retry_config timeout_env"
    unfolding timeout_env_def by (rule retry_config_waits)
  have nf: "no_interrupt flaky_env"
    by (simp add: no_interrupt_def flaky_env_def demo_env_def)
  have nt: "no_interrupt timeout_env"
    by (simp add: no_interrupt_def timeout_env_def demo_env_def)
  have j1: "(1::nat) \<le> nat (max_retries retry_config + 1)" by (simp add: retry_config_def)
  have j2: "(2::nat) \<le> nat (max_retries retry_config + 1)" by (simp add: retry_config_def)
  have ff: "attempt_fails flaky_env demo_tile 0 \<and> \<not> attempt_fails flaky_env demo_tile 1"
    by (simp add: attempt_fails_def flaky_env_def demo_env_def)
  have ft: "attempt_fails timeout_env demo_tile 0 \<and> attempt_fails timeout_env demo_tile 1"
    by (simp add: attempt_fails_def timeout_env_def demo_env_def)
  have f1: "\<forall>i < 1. attempt_fails flaky_env demo_tile (net_calls fresh_downloader + i)"
    using ff by (simp add: fresh_downloader_def BaseDownloader_init_def)
  have o1: "1 < nat (max_retries retry_config + 1) \<longrightarrow>
            \<not> attempt_fails flaky_env demo_tile (net_calls fresh_downloader + 1)"
    using ff by (simp add: fresh_downloader_def BaseDownloader_init_def)
  have f2: "\<forall>i < 2. attempt_fails timeout_env demo_tile (net_calls fresh_downloader + i)"
    using ft by (simp add: fresh_downloader_def BaseDownloader_init_def less_Suc_eq numeral_2_eq_2)
  have o2: "2 < nat (max_retries retry_config + 1) \<longrightarrow>
            \<not> attempt_fails timeout_env demo_tile (net_calls fresh_downloader + 2)"
    by (simp add: retry_config_def)
  note a = download_tile_retries[OF v m i wf nf j1 f1 o1]
  note b = download_tile_retries[OF v m i wt nt j2 f2 o2]
  show ?thesis
    by (rule conjI[OF v conjI[OF m conjI[OF i conjI[OF wf conjI[OF nf conjI[OF wt conjI[OF nt
          conjI[OF j1 conjI[OF j2 conjI[OF ff conjI[OF ft conjI[OF a b]]]]]]]]]]]])
qed

text \<open>
  C7 (amended) with one retry, on batches of the out-of-range tile \<open>(5, 0)\<close> and a valid
  tile: every request timing out, where each tile gets its failure result; and every request
  interrupted, where the batch returns the one result it had.
\<close>

theorem download_never_raises_witness:
  "cache_inv (tile_cache fresh_downloader) \<and>
   waits_accepted retry_config timeout_env \<and> no_interrupt timeout_env \<and>
   waits_accepted retry_config interrupt_env \<and>
   [bad_tile, demo_tile, bad_tile] = [bad_tile] @ demo_tile # [bad_tile] \<and>
   download_loop retry_config interrupt_env (int (length [bad_tile, demo_tile, bad_tile])) 1
     [bad_tile] []
     (fresh_downloader
        \<lparr>total_downloads := total_downloads fresh_downloader +
                              int (length [bad_tile, demo_tile, bad_tile])\<rparr>) =
     ([failure_result bad_tile (InvalidCoordMsg 5 0 1)],
      snd (download_loop retry_config interrupt_env (int (length [bad_tile, demo_tile, bad_tile])) 1
             [bad_tile] []
             (fresh_downloader
                \<lparr>total_downloads := total_downloads fresh_downloader +
                                      int (length [bad_tile, demo_tile, bad_tile])\<rparr>))) \<and>
   length [failure_result bad_tile (InvalidCoordMsg 5 0 1)] = length [bad_tile] \<and>
   download_tile retry_config interrupt_env demo_tile
     (snd (download_loop retry_config interrupt_env (int (length [bad_tile, demo_tile, bad_tile])) 1
             [bad_tile] []
             (fresh_downloader
                \<lparr>total_downloads := total_downloads fresh_downloader +
                                      int (length [bad_tile, demo_tile, bad_tile])\<rparr>))) =
     (Inl KeyboardInterrupt,
      snd (download_tile retry_config interrupt_env demo_tile
        (snd (download_loop retry_config interrupt_env (int (length [bad_tile, demo_tile, bad_tile])) 1
             [bad_tile] []
             (fresh_downloader
                \<lparr>total_downloads := total_downloads fresh_downloader +
                                      int (length [bad_tile, demo_tile, bad_tile])\<rparr>))))) \<and>
   download_loop retry_config timeout_env (int (length [bad_tile, demo_tile, bad_tile])) 1
     [bad_tile] []
     (fresh_downloader
        \<lparr>total_downloads := total_downloads fresh_downloader +
                              int (length [bad_tile, demo_tile, bad_tile])\<rparr>) =
     ([failure_result bad_tile (InvalidCoordMsg 5 0 1)],
      snd (download_loop retry_config timeout_env (int (length [bad_tile, demo_tile, bad_tile])) 1
             [bad_tile] []
             (fresh_downloader
                \<lparr>total_downloads := total_downloads fresh_downloader +
                                      int (length [bad_tile, demo_tile, bad_tile])\<rparr>))) \<and>
   download_tile retry_config timeout_env demo_tile
     (snd (download_loop retry_config timeout_env (int (length [bad_tile, demo_tile, bad_tile])) 1
             [bad_tile] []
             (fresh_downloader
                \<lparr>total_downloads := total_downloads fresh_downloader +
                                      int (length [bad_tile, demo_tile, bad_tile])\<rparr>))) =
     (Inr (failure_result demo_tile (RetriesExhaustedMsg 1)),
      snd (download_tile retry_config timeout_env demo_tile
        (snd (download_loop retry_config timeout_env (int (length [bad_tile, demo_tile, bad_tile])) 1
             [bad_tile] []
             (fresh_downloader
                \<lparr>total_downloads := total_downloads fresh_downloader +
                                      int (length [bad_tile, demo_tile, bad_tile])\<rparr>))))) \<and>
   ((\<exists>res s'. download_tile retry_config timeout_env demo_tile fresh_downloader =
                (Inr res, s') \<and> result_tile res = demo_tile) \<or>
    (\<exists>s'. download_tile retry_config timeout_env demo_tile fresh_downloader =
            (Inl KeyboardInterrupt, s'))) \<and>
   ((\<exists>res s'. download_tile retry_config timeout_env demo_tile fresh_downloader =
                (Inr res, s') \<and> result_tile res = demo_tile) \<and>
    map result_tile (fst (download_tiles retry_config timeout_env [bad_tile, demo_tile, bad_tile]
                            fresh_downloader)) = [bad_tile, demo_tile, bad_tile]) \<and>
   (\<exists>k \<le> length [bad_tile, demo_tile, bad_tile].
      map result_tile (fst (download_tiles retry_config interrupt_env
                              [bad_tile, demo_tile, bad_tile] fresh_downloader)) =
        take k [bad_tile, demo_tile, bad_tile]) \<and>
   download_tiles retry_config interrupt_env [bad_tile, demo_tile, bad_tile]
     fresh_downloader =
     ([failure_result bad_tile (InvalidCoordMsg 5 0 1)],
      snd (download_tile retry_config interrupt_env demo_tile
        (snd (download_loop retry_config interrupt_env (int (length [bad_tile, demo_tile, bad_tile])) 1
             [bad_tile] []
             (fresh_downloader
                \<lparr>total_downloads := total_downloads fresh_downloader +
                                      int (length [bad_tile, demo_tile, bad_tile])\<rparr>))))) \<and>
   take (Suc (length [bad_tile]))
     (fst (download_tiles retry_config timeout_env [bad_tile, demo_tile, bad_tile]
             fresh_downloader)) =
     [failure_result bad_tile (InvalidCoordMsg 5 0 1)] @
     [failure_result demo_tile (RetriesExhaustedMsg 1)]"
proof -
  let ?tiles = "[bad_tile, demo_tile, bad_tile]"
  let ?init = "fresh_downloader
        \<lparr>total_downloads := total_downloads fresh_downloader + int (length ?tiles)\<rparr>"
  let ?rs = "[failure_result bad_tile (InvalidCoordMsg 5 0 1)]"
  let ?si = "snd (download_loop retry_config interrupt_env (int (length ?tiles)) 1 [bad_tile] []
                    ?init)"
  let ?st = "snd (download_loop retry_config timeout_env (int (length ?tiles)) 1 [bad_tile] []
                    ?init)"
  have i: "cache_inv (tile_cache fresh_downloader)"
    unfolding fresh_downloader_def by (rule init_cache_inv)
  have wt: "waits_accepted retry_config timeout_env"
    unfolding timeout_env_def by (rule retry_config_waits)
  have wi: "waits_accepted retry_config interrupt_env"
    unfolding interrupt_env_def by (rule retry_config_waits)
  have nt: "no_interrupt timeout_env"
    by (simp add: no_interrupt_def timeout_env_def demo_env_def)
  have sp: "?tiles = [bad_tile] @ demo_tile # [bad_tile]" by simp
  have li: "download_loop retry_config interrupt_env (int (length ?tiles)) 1 [bad_tile] [] ?init =
              (?rs, ?si)"
    by (rule pair_with_snd)
       (simp add: fresh_downloader_def dl_defs bad_tile_xyz no_files_def interrupt_env_def retry_config_def
          demo_config_def)
  have lt: "download_loop retry_config timeout_env (int (length ?tiles)) 1 [bad_tile] [] ?init =
              (?rs, ?st)"
    by (rule pair_with_snd)
       (simp add: fresh_downloader_def dl_defs bad_tile_xyz no_files_def timeout_env_def retry_config_def
          demo_config_def)
  have len: "length ?rs = length [bad_tile]" by simp
  have di: "download_tile retry_config interrupt_env demo_tile ?si =
              (Inl KeyboardInterrupt, snd (download_tile retry_config interrupt_env demo_tile ?si))"
    by (rule pair_with_snd)
       (simp add: fresh_downloader_def dl_defs bad_tile_xyz demo_tile_xyz no_files_def interrupt_env_def
          retry_config_def demo_config_def upto.simps)
  have dt: "download_tile retry_config timeout_env demo_tile ?st =
              (Inr (failure_result demo_tile (RetriesExhaustedMsg 1)),
               snd (download_tile retry_config timeout_env demo_tile ?st))"
    by (rule pair_with_snd)
       (simp add: fresh_downloader_def dl_defs bad_tile_xyz demo_tile_xyz no_files_def timeout_env_def
          retry_config_def demo_config_def upto.simps)
  note a = download_never_raises[OF i wt, of demo_tile ?tiles "[bad_tile]" demo_tile
      "[bad_tile]" ?rs ?st "snd (download_tile retry_config timeout_env demo_tile ?st)"
      "failure_result demo_tile (RetriesExhaustedMsg 1)"
      "snd (download_tile retry_config timeout_env demo_tile ?st)"]
  note b = download_never_raises[OF i wi, of demo_tile ?tiles "[bad_tile]" demo_tile
      "[bad_tile]" ?rs ?si "snd (download_tile retry_config interrupt_env demo_tile ?si)"
      "failure_result demo_tile (RetriesExhaustedMsg 1)"
      "snd (download_tile retry_config interrupt_env demo_tile ?si)"]
  note a1 = conjunct1[OF a]
  note a2 = mp[OF conjunct1[OF conjunct2[OF a]] nt]
  note b3 = conjunct1[OF conjunct2[OF conjunct2[OF b]]]
  note a4 = mp[OF conjunct2[OF conjunct2[OF conjunct2[OF a]]] conjI[OF sp conjI[OF lt len]]]
  note b4 = mp[OF conjunct2[OF conjunct2[OF conjunct2[OF b]]] conjI[OF sp conjI[OF li len]]]
  note bi = mp[OF conjunct1[OF b4] di]
  note at = mp[OF conjunct2[OF a4] dt]
  show ?thesis
    by (rule conjI[OF i conjI[OF wt conjI[OF nt conjI[OF wi conjI[OF sp conjI[OF li
          conjI[OF len conjI[OF di conjI[OF lt conjI[OF dt conjI[OF a1 conjI[OF a2
          conjI[OF b3 conjI[OF bi at]]]]]]]]]]]]]])
qed

section \<open>Properties of the pixel placement\<close>

lemma geo_to_tile_trunc:
  "geo_to_tile ops lon lat zoom =
     (trunc_f ops (fst (geo_to_tile_float ops lon lat zoom)),
      trunc_f ops (snd (geo_to_tile_float ops lon lat zoom)))"
  by (simp add: geo_to_tile_def geo_to_tile_float_def Let_def)

lemma geo_to_pixel_x:
  "pixel_x (geo_to_pixel ops point center_tile grid_size) =
     fmul ops
       (fsub ops (fst (geo_to_tile_float ops (longitude point) (latitude point) (tile_z center_tile)))
          (of_int_f ops (tile_x center_tile - grid_size div 2)))
       (of_int_f ops tile_size)"
  by (simp add: geo_to_pixel_def Let_def tile_size_def split: prod.splits)

lemma geo_to_pixel_y:
  "pixel_y (geo_to_pixel ops point center_tile grid_size) =
     fmul ops
       (fsub ops (snd (geo_to_tile_float ops (longitude point) (latitude point) (tile_z center_tile)))
          (of_int_f ops (tile_y center_tile - grid_size div 2)))
       (of_int_f ops tile_size)"
  by (simp add: geo_to_pixel_def Let_def tile_size_def split: prod.splits)

lemma process_point_image_record:
  assumes "process_point_image ops lib point download_results zoom grid_size = Inr (img, md)"
  shows "pixel_coordinates md =
           [\<lparr>rec_index = point_index point, rec_longitude = longitude point,
             rec_latitude = latitude point,
             rec_pixel_x = pixel_x (geo_to_pixel ops point
                \<lparr>tile_x = fst (geo_to_tile ops (longitude point) (latitude point) zoom),
                 tile_y = snd (geo_to_tile ops (longitude point) (latitude point) zoom),
                 tile_z = zoom, url = '''', file_path = ''''\<rparr> grid_size),
             rec_pixel_y = pixel_y (geo_to_pixel ops point
                \<lparr>tile_x = fst (geo_to_tile ops (longitude point) (latitude point) zoom),
                 tile_y = snd (geo_to_tile ops (longitude point) (latitude point) zoom),
                 tile_z = zoom, url = '''', file_path = ''''\<rparr> grid_size)\<rparr>]"
  using assms
  by (auto simp: process_point_image_def create_image_metadata_def Let_def
      split: prod.splits sum.splits)

text \<open>
  C1. For every point, centre tile and grid size, and whatever the float operations are, the
  pixel position of the point is, in each axis, the product by 256 of the difference between
  the point's fractional tile coordinate at the centre tile's zoom (\<open>geo_to_tile_float\<close>, the
  value that \<open>geo_to_tile\<close> passes to \<open>int\<close>, here not truncated) and the top-left tile
  coordinate \<open>centre - grid_size div 2\<close>: one subtraction and one multiplication, and no
  rounding operation between them. The position recorded in the metadata that
  \<open>process_point_image\<close> returns is that value, for the centre tile computed from the point.
\<close>

theorem pixel_position_formula:
  "pixel_x (geo_to_pixel ops point center_tile grid_size) =
     fmul ops
       (fsub ops (fst (geo_to_tile_float ops (longitude point) (latitude point) (tile_z center_tile)))
          (of_int_f ops (tile_x center_tile - grid_size div 2)))
       (of_int_f ops 256) \<and>
   pixel_y (geo_to_pixel ops point center_tile grid_size) =
     fmul ops
       (fsub ops (snd (geo_to_tile_float ops (longitude point) (latitude point) (tile_z center_tile)))
          (of_int_f ops (tile_y center_tile - grid_size div 2)))
       (of_int_f ops 256) \<and>
   geo_to_tile ops lon lat zoom =
     (trunc_f ops (fst (geo_to_tile_float ops lon lat zoom)),
      trunc_f ops (snd (geo_to_tile_float ops lon lat zoom))) \<and>
   (process_point_image ops lib point download_results zoom grid_size = Inr (img, md) \<longrightarrow>
      map rec_pixel_x (pixel_coordinates md) =
        [fmul ops
           (fsub ops (fst (geo_to_tile_float ops (longitude point) (latitude point) zoom))
              (of_int_f ops (fst (geo_to_tile ops (longitude point) (latitude point) zoom)
                             - grid_size div 2)))
           (of_int_f ops 256)] \<and>
      map rec_pixel_y (pixel_coordinates md) =
        [fmul ops
           (fsub ops (snd (geo_to_tile_float ops (longitude point) (latitude point) zoom))
              (of_int_f ops (snd (geo_to_tile ops (longitude point) (latitude point) zoom)
                             - grid_size div 2)))
           (of_int_f ops 256)])"
proof (intro conjI impI)
  assume a: "process_point_image ops lib point download_results zoom grid_size = Inr (img, md)"
  show "map rec_pixel_x (pixel_coordinates md) =
        [fmul ops
           (fsub ops (fst (geo_to_tile_float ops (longitude point) (latitude point) zoom))
              (of_int_f ops (fst (geo_to_tile ops (longitude point) (latitude point) zoom)
                             - grid_size div 2)))
           (of_int_f ops 256)]"
    by (simp add: process_point_image_record[OF a] geo_to_pixel_x tile_size_def)
  show "map rec_pixel_y (pixel_coordinates md) =
        [fmul ops
           (fsub ops (snd (geo_to_tile_float ops (longitude point) (latitude point) zoom))
              (of_int_f ops (snd (geo_to_tile ops (longitude point) (latitude point) zoom)
                             - grid_size div 2)))
           (of_int_f ops 256)]"
    by (simp add: process_point_image_record[OF a] geo_to_pixel_y tile_size_def)
qed (simp_all add: geo_to_pixel_x geo_to_pixel_y geo_to_tile_trunc tile_size_def)

lemma null_island_tile_float: "geo_to_tile_float real_ops 0 0 1 = (1, 1)"
  by (simp add: geo_to_tile_float_def real_ops_def Let_def)

lemma null_island_tile: "geo_to_tile real_ops 0 0 1 = (1, 1)"
  by (simp add: geo_to_tile_trunc null_island_tile_float) (simp add: real_ops_def)

lemma process_point_image_returns:
  assumes "0 \<le> grid_size"
  shows "\<exists>r. process_point_image ops lib point download_results zoom grid_size = Inr r"
proof -
  obtain cx cy where c: "geo_to_tile ops (longitude point) (latitude point) zoom = (cx, cy)"
    by (cases "geo_to_tile ops (longitude point) (latitude point) zoom")
  obtain img where "merge_tiles lib download_results grid_size
      \<lparr>tile_x = cx, tile_y = cy, tile_z = zoom, url = '''', file_path = ''''\<rparr> = Inr img"
    using merge_tiles_pixels[OF assms, of lib download_results] by blast
  then show ?thesis by (simp add: process_point_image_def c Let_def)
qed

text \<open>
  C1 on real numbers at longitude 0, latitude 0, zoom 1 with a 3 by 3 grid: the point is the
  top-left corner of the centre tile \<open>(1, 1)\<close>, at pixel \<open>(256, 256)\<close> of the mosaic.
\<close>

theorem pixel_position_formula_witness:
  "process_point_image real_ops demo_pil null_island demo_results 1 3 =
     Inr (fst (projr (process_point_image real_ops demo_pil null_island demo_results 1 3)),
          snd (projr (process_point_image real_ops demo_pil null_island demo_results 1 3))) \<and>
   map rec_pixel_x (pixel_coordinates
       (snd (projr (process_point_image real_ops demo_pil null_island demo_results 1 3)))) = [256] \<and>
   map rec_pixel_y (pixel_coordinates
       (snd (projr (process_point_image real_ops demo_pil null_island demo_results 1 3)))) = [256]"
proof -
  have h: "process_point_image real_ops demo_pil null_island demo_results 1 3 =
     Inr (fst (projr (process_point_image real_ops demo_pil null_island demo_results 1 3)),
          snd (projr (process_point_image real_ops demo_pil null_island demo_results 1 3)))"
    using process_point_image_returns[of 3 real_ops demo_pil null_island demo_results 1]
    by auto
  note t = pixel_position_formula[of real_ops null_island _ 3 _ _ 1 demo_pil demo_results
      "fst (projr (process_point_image real_ops demo_pil null_island demo_results 1 3))"
      "snd (projr (process_point_image real_ops demo_pil null_island demo_results 1 3))"]
  note m = mp[OF conjunct2[OF conjunct2[OF conjunct2[OF t]]] h]
  have x: "fmul real_ops
           (fsub real_ops (fst (geo_to_tile_float real_ops (longitude null_island) (latitude null_island) 1))
              (of_int_f real_ops (fst (geo_to_tile real_ops (longitude null_island) (latitude null_island) 1)
                             - 3 div 2)))
           (of_int_f real_ops 256) = 256"
    by (simp add: null_island_def null_island_tile null_island_tile_float) (simp add: real_ops_def)
  have y: "fmul real_ops
           (fsub real_ops (snd (geo_to_tile_float real_ops (longitude null_island) (latitude null_island) 1))
              (of_int_f real_ops (snd (geo_to_tile real_ops (longitude null_island) (latitude null_island) 1)
                             - 3 div 2)))
           (of_int_f real_ops 256) = 256"
    by (simp add: null_island_def null_island_tile null_island_tile_float) (simp add: real_ops_def)
  from m x y h show ?thesis by simp
qed
section \<open>Properties of the pipeline\<close>

text \<open>
  What \<open>_process_single_point\<close> does once the tiles of the point are computed: no mosaic
  when no download succeeded; the metadata, with the image and the metadata written, when a
  download succeeded and rendering and both writes return; and it returns the metadata only
  in that way.
\<close>

lemma single_point_no_success:
  assumes "DataProcessor_calculate_tiles_for_point c p = Inr tiles"
    "fetch_tiles c i tiles = Inr results" "filter success results = []"
  shows "fst (process_single_point c p i st) = Inr None \<and>
         images_written (snd (process_single_point c p i st)) = images_written st \<and>
         metadata_written (snd (process_single_point c p i st)) = metadata_written st"
  using assms by (simp add: process_single_point_def try_single_point_def Let_def)

lemma single_point_produced:
  assumes "process_single_point c p i st = (Inr (Some md), st')"
  shows "\<exists>tiles results img.
           DataProcessor_calculate_tiles_for_point c p = Inr tiles \<and>
           fetch_tiles c i tiles = Inr results \<and>
           filter success results \<noteq> [] \<and> render c p results = Inr (img, md) \<and>
           images_written st' = images_written st @ [i] \<and>
           metadata_written st' = metadata_written st @ [i]"
  using assms
  by (auto simp: process_single_point_def try_single_point_def Let_def
      split: sum.splits if_splits prod.splits)

lemma single_point_success:
  assumes "DataProcessor_calculate_tiles_for_point c p = Inr tiles"
    "fetch_tiles c i tiles = Inr results"
    "filter success results \<noteq> []" "render c p results = Inr (img, md)"
    "write_image c i img = Inr path" "write_metadata c i md = Inr mpath"
  shows "fst (process_single_point c p i st) = Inr (Some md) \<and>
         images_written (snd (process_single_point c p i st)) = images_written st @ [i] \<and>
         metadata_written (snd (process_single_point c p i st)) = metadata_written st @ [i]"
  using assms by (simp add: process_single_point_def try_single_point_def Let_def)





text \<open>
  One point whose only tile downloads, and whose mosaic renders and saves. With the
  downloader of the repository the point fails and nothing is written; with the same method
  under the name that \<open>DataProcessor\<close> calls, the point yields its metadata and its image.
\<close>

lemma repository_point_example:
  "process_points repository_collaborators [7] fresh_state =
     (Inr [], fresh_state\<lparr>stats_failed_points := 1\<rparr>) \<and>
   process_points renamed_collaborators [7] fresh_state =
     (Inr [47],
      fresh_state\<lparr>stats_total_tiles := 1, stats_successful_tiles := 1, images_written := [0],
                   metadata_written := [0], stats_successful_points := 1\<rparr>)"
  by (simp add: repository_collaborators_def renamed_collaborators_def fresh_state_def
      repository_tile_methods_def DataProcessor_calculate_tiles_for_point_def demo_ok_def
      process_points_def process_single_point_def try_single_point_def
      is_Exception_def Let_def enumerate_eq_zip upt_rec)

end
